theory Spec2Isabelle
  imports Main "HOL-Library.AList" "HOL-Library.Product_Lexorder"
begin

section \<open>The data contract of the solver\<close>

text \<open>
  The records below are the dictionaries that \<^verbatim>\<open>generate_schedule\<close> (solver.py) reads.
  A timeslot is the tuple \<^verbatim>\<open>(day, slot)\<close>; identifiers, capacities and enrollments are
  Python integers; type tags are strings.
\<close>

type_synonym timeslot = "int \<times> int"

record course =
  c_id :: int
  c_code :: string
  c_name :: string
  c_type :: string
  c_enrollment :: int
  c_preferred_faculty :: "int list"

record faculty =
  f_id :: int
  f_name :: string
  f_availability :: "timeslot list"

record room =
  r_id :: int
  r_name :: string
  r_capacity :: int
  r_type :: string

record election =
  student_id :: int
  course_id :: int

record solver_data =
  COURSES :: "course list"
  FACULTY :: "faculty list"
  ROOMS :: "room list"
  STUDENT_ELECTIONS :: "election list"
  ALL_TIMESLOTS :: "timeslot list"

text \<open>
  A temporary constraint arrives as a JSON object from the request. Reading one of its
  three keys happens inside \<^verbatim>\<open>try\<close>; a key that is absent raises there and the
  constraint is skipped with a warning. An absent key is \<open>None\<close>.
\<close>

record temp_constraint =
  tc_faculty_id :: "int option"
  tc_day :: "int option"
  tc_slot :: "int option"

text \<open>An entry of a schedule: of the returned one and of \<^verbatim>\<open>previous_schedule\<close>.\<close>

record entry =
  e_day :: int
  e_slot :: int
  e_course :: course
  e_faculty :: faculty
  e_room :: room

section \<open>The constraint model handed to the solver\<close>

text \<open>
  The dictionary \<^verbatim>\<open>schedule\<close> is keyed by (course id, faculty id, room id, timeslot); a
  Boolean variable of the model is the one stored under such a key, or the reward
  variable created for the course at a position of \<^verbatim>\<open>COURSES\<close>.
\<close>

type_synonym key = "int \<times> int \<times> int \<times> timeslot"

datatype var = SchedVar key | RewardVar nat

datatype linear_ct = SumEq "var list" int | SumLe "var list" int

datatype constraint = Add linear_ct | AddOnlyEnforceIf linear_ct var

record cp_model =
  bool_vars :: "var list"
  constraints :: "constraint list"
  objective :: "var list option"

text \<open>The terminal statuses of the solver library.\<close>

datatype status = UNKNOWN | MODEL_INVALID | FEASIBLE | INFEASIBLE | OPTIMAL

text \<open>
  The search itself belongs to the solver library, not to this program: it is a
  parameter. \<^verbatim>\<open>solver.Solve(model)\<close> gives the status, \<^verbatim>\<open>solver.Value(x)\<close> the value of
  a variable.
\<close>

type_synonym solver = "cp_model \<Rightarrow> status \<times> (var \<Rightarrow> int)"

fun lin_holds :: "(var \<Rightarrow> int) \<Rightarrow> linear_ct \<Rightarrow> bool" where
  "lin_holds v (SumEq xs n) = (sum_list (map v xs) = n)"
| "lin_holds v (SumLe xs n) = (sum_list (map v xs) \<le> n)"

fun ct_holds :: "(var \<Rightarrow> int) \<Rightarrow> constraint \<Rightarrow> bool" where
  "ct_holds v (Add l) = lin_holds v l"
| "ct_holds v (AddOnlyEnforceIf l b) = (v b = 1 \<longrightarrow> lin_holds v l)"

definition satisfies :: "cp_model \<Rightarrow> (var \<Rightarrow> int) \<Rightarrow> bool" where
  "satisfies m v =
     ((\<forall>x \<in> set (bool_vars m). v x = 0 \<or> v x = 1) \<and>
      (\<forall>c \<in> set (constraints m). ct_holds v c))"

definition objective_value :: "cp_model \<Rightarrow> (var \<Rightarrow> int) \<Rightarrow> int" where
  "objective_value m v = (case objective m of None \<Rightarrow> 0 | Some xs \<Rightarrow> sum_list (map v xs))"

text \<open>
  What the solver library promises about the model it is given. A status of optimal or
  feasible comes with values that satisfy the model (\<open>solver_sound\<close>). Run without a
  limit, as here, the search is exhaustive (\<open>solver_exact\<close>): a satisfiable model ends
  optimal, with values that maximise the objective, and any other model ends infeasible.
\<close>

definition solver_sound :: "solver \<Rightarrow> cp_model \<Rightarrow> bool" where
  "solver_sound solve m =
     (case solve m of (st, v) \<Rightarrow> (st = OPTIMAL \<or> st = FEASIBLE) \<longrightarrow> satisfies m v)"

definition solver_exact :: "solver \<Rightarrow> cp_model \<Rightarrow> bool" where
  "solver_exact solve m =
     (case solve m of (st, v) \<Rightarrow>
        if (\<exists>v'. satisfies m v')
        then st = OPTIMAL \<and> satisfies m v \<and>
             (\<forall>v'. satisfies m v' \<longrightarrow> objective_value m v' \<le> objective_value m v)
        else st = INFEASIBLE)"

section \<open>generate\_schedule\<close>

subsection \<open>1. Variables\<close>

definition eligible :: "course \<Rightarrow> faculty \<Rightarrow> room \<Rightarrow> timeslot \<Rightarrow> bool" where
  "eligible c f r t =
     (f_id f \<in> set (c_preferred_faculty c) \<and>
      t \<in> set (f_availability f) \<and>
      r_capacity r \<ge> c_enrollment c \<and>
      c_type c = r_type r)"

definition mk_key :: "course \<Rightarrow> faculty \<Rightarrow> room \<Rightarrow> timeslot \<Rightarrow> key" where
  "mk_key c f r t = (c_id c, f_id f, r_id r, t)"

text \<open>The keys of the dictionary \<^verbatim>\<open>schedule\<close>, in the order the loops insert them.\<close>

definition define_variables :: "solver_data \<Rightarrow> key list" where
  "define_variables d =
     [mk_key c f r t.
        c \<leftarrow> COURSES d, f \<leftarrow> FACULTY d, r \<leftarrow> ROOMS d, t \<leftarrow> ALL_TIMESLOTS d,
        eligible c f r t]"

subsection \<open>2. Hard constraints\<close>

definition course_uniqueness :: "solver_data \<Rightarrow> key list \<Rightarrow> constraint list" where
  "course_uniqueness d sched =
     [Add (SumEq [SchedVar (c_id c, f_id f, r_id r, t).
                    f \<leftarrow> FACULTY d, r \<leftarrow> ROOMS d, t \<leftarrow> ALL_TIMESLOTS d,
                    (c_id c, f_id f, r_id r, t) \<in> set sched] 1).
        c \<leftarrow> COURSES d]"

definition faculty_conflict :: "solver_data \<Rightarrow> key list \<Rightarrow> constraint list" where
  "faculty_conflict d sched =
     [Add (SumLe [SchedVar (c_id c, f_id f, r_id r, t).
                    c \<leftarrow> COURSES d, r \<leftarrow> ROOMS d,
                    (c_id c, f_id f, r_id r, t) \<in> set sched] 1).
        f \<leftarrow> FACULTY d, t \<leftarrow> ALL_TIMESLOTS d]"

definition room_conflict :: "solver_data \<Rightarrow> key list \<Rightarrow> constraint list" where
  "room_conflict d sched =
     [Add (SumLe [SchedVar (c_id c, f_id f, r_id r, t).
                    c \<leftarrow> COURSES d, f \<leftarrow> FACULTY d,
                    (c_id c, f_id f, r_id r, t) \<in> set sched] 1).
        r \<leftarrow> ROOMS d, t \<leftarrow> ALL_TIMESLOTS d]"

text \<open>
  The dictionary \<^verbatim>\<open>student_enrollments\<close>: a student's first election appends the student
  with an empty list, and every election appends its course to the student's list. The
  association list keeps the insertion order that \<^verbatim>\<open>.items()\<close> iterates in.
\<close>

definition add_election :: "(int \<times> int list) list \<Rightarrow> election \<Rightarrow> (int \<times> int list) list" where
  "add_election m e =
     (case map_of m (student_id e) of
        None \<Rightarrow> AList.update (student_id e) [course_id e] m
      | Some cs \<Rightarrow> AList.update (student_id e) (cs @ [course_id e]) m)"

definition student_enrollments :: "solver_data \<Rightarrow> (int \<times> int list) list" where
  "student_enrollments d = fold (\<lambda>e m. add_election m e) (STUDENT_ELECTIONS d) []"

text \<open>The constraints the second loop adds, from the dictionary the first loop built.\<close>

definition student_constraints_of ::
  "solver_data \<Rightarrow> key list \<Rightarrow> (int \<times> int list) list \<Rightarrow> constraint list" where
  "student_constraints_of d sched enrollments =
     [Add (SumLe [SchedVar (cid, f_id f, r_id r, t).
                    cid \<leftarrow> enrolled_courses, f \<leftarrow> FACULTY d, r \<leftarrow> ROOMS d,
                    (cid, f_id f, r_id r, t) \<in> set sched] 1).
        (sid, enrolled_courses) \<leftarrow> enrollments, t \<leftarrow> ALL_TIMESLOTS d]"

definition student_conflict :: "solver_data \<Rightarrow> key list \<Rightarrow> constraint list" where
  "student_conflict d sched = student_constraints_of d sched (student_enrollments d)"

text \<open>
  Temporary constraints. \<^verbatim>\<open>None\<close> and the empty list are both falsy and add nothing. A
  constraint with a key missing raises inside \<^verbatim>\<open>try\<close> before anything is added, and
  is skipped.
\<close>

definition apply_constraint :: "solver_data \<Rightarrow> key list \<Rightarrow> temp_constraint \<Rightarrow> constraint list" where
  "apply_constraint d sched tc =
     (case (tc_faculty_id tc, tc_day tc, tc_slot tc) of
        (Some faculty_id, Some day, Some slot) \<Rightarrow>
          [Add (SumEq [SchedVar (c_id c, faculty_id, r_id r, (day, slot))] 0).
             c \<leftarrow> COURSES d, r \<leftarrow> ROOMS d,
             (c_id c, faculty_id, r_id r, (day, slot)) \<in> set sched]
      | _ \<Rightarrow> [])"

definition temporary :: "solver_data \<Rightarrow> key list \<Rightarrow> temp_constraint list option \<Rightarrow> constraint list" where
  "temporary d sched temporary_constraints =
     (case temporary_constraints of
        None \<Rightarrow> []
      | Some tcs \<Rightarrow> concat (map (apply_constraint d sched) tcs))"

subsection \<open>Soft constraint: keep the previous schedule\<close>

definition old_schedule_map :: "entry list \<Rightarrow> (int \<rightharpoonup> int \<times> int \<times> timeslot)" where
  "old_schedule_map previous_schedule =
     fold (\<lambda>item m. m(c_id (e_course item) \<mapsto>
                        (f_id (e_faculty item), r_id (e_room item), (e_day item, e_slot item))))
       previous_schedule Map.empty"

text \<open>
  The rewards: the position in \<^verbatim>\<open>COURSES\<close> of every course whose previous assignment is
  still a key of \<^verbatim>\<open>schedule\<close>, with that key.
\<close>

definition rewards_of ::
  "solver_data \<Rightarrow> key list \<Rightarrow> (int \<rightharpoonup> int \<times> int \<times> timeslot) \<Rightarrow> (nat \<times> key) list" where
  "rewards_of d sched old_map =
     concat (map (\<lambda>(i, c).
        case old_map (c_id c) of
          None \<Rightarrow> []
        | Some (old_faculty, old_room, old_timeslot) \<Rightarrow>
            if (c_id c, old_faculty, old_room, old_timeslot) \<in> set sched
            then [(i, (c_id c, old_faculty, old_room, old_timeslot))] else [])
       (enumerate 0 (COURSES d)))"

definition rewards :: "solver_data \<Rightarrow> key list \<Rightarrow> entry list \<Rightarrow> (nat \<times> key) list" where
  "rewards d sched previous_schedule = rewards_of d sched (old_schedule_map previous_schedule)"

definition reward_list :: "solver_data \<Rightarrow> key list \<Rightarrow> entry list option \<Rightarrow> (nat \<times> key) list option" where
  "reward_list d sched previous_schedule =
     (case previous_schedule of
        None \<Rightarrow> None
      | Some prev \<Rightarrow> if prev = [] then None else Some (rewards d sched prev))"

definition hard_constraints :: "solver_data \<Rightarrow> key list \<Rightarrow> temp_constraint list option \<Rightarrow> constraint list" where
  "hard_constraints d sched temporary_constraints =
     course_uniqueness d sched @ faculty_conflict d sched @ room_conflict d sched @
     student_conflict d sched @ temporary d sched temporary_constraints"

definition build_model :: "solver_data \<Rightarrow> temp_constraint list option \<Rightarrow> entry list option \<Rightarrow> cp_model" where
  "build_model d temporary_constraints previous_schedule =
     (let sched = define_variables d;
          hard = hard_constraints d sched temporary_constraints
      in case reward_list d sched previous_schedule of
           None \<Rightarrow>
             \<lparr>bool_vars = map SchedVar sched, constraints = hard, objective = None\<rparr>
         | Some rs \<Rightarrow>
             \<lparr>bool_vars = map SchedVar sched @ map (\<lambda>(i, k). RewardVar i) rs,
              constraints = hard @ map (\<lambda>(i, k). AddOnlyEnforceIf (SumEq [SchedVar k] 1) (RewardVar i)) rs,
              objective = Some (map (\<lambda>(i, k). RewardVar i) rs)\<rparr>)"

subsection \<open>3. Solving and decoding\<close>

datatype py_error = KeyError

text \<open>A dictionary comprehension \<^verbatim>\<open>{x["id"]: x for x in xs}\<close>: a later record replaces an earlier one.\<close>

definition id_map :: "('a \<Rightarrow> int) \<Rightarrow> 'a list \<Rightarrow> (int \<rightharpoonup> 'a)" where
  "id_map ident xs = fold (\<lambda>x m. m(ident x \<mapsto> x)) xs Map.empty"

definition subscript :: "(int \<rightharpoonup> 'a) \<Rightarrow> int \<Rightarrow> py_error + 'a" where
  "subscript m k = (case m k of None \<Rightarrow> Inl KeyError | Some x \<Rightarrow> Inr x)"

text \<open>A loop that appends to \<^verbatim>\<open>results\<close>; an exception in its body ends it.\<close>

fun collect :: "('a \<Rightarrow> py_error + 'b list) \<Rightarrow> 'a list \<Rightarrow> py_error + 'b list" where
  "collect body [] = Inr []"
| "collect body (x # xs) =
     (case body x of
        Inl e \<Rightarrow> Inl e
      | Inr ys \<Rightarrow> (case collect body xs of Inl e \<Rightarrow> Inl e | Inr zs \<Rightarrow> Inr (ys @ zs)))"

definition decode_cell ::
  "solver_data \<Rightarrow> key list \<Rightarrow> (var \<Rightarrow> int) \<Rightarrow> timeslot \<Rightarrow> course \<Rightarrow> faculty \<Rightarrow> room \<Rightarrow> py_error + entry list" where
  "decode_cell d sched val t c f r =
     (if (c_id c, f_id f, r_id r, t) \<in> set sched \<and> val (SchedVar (c_id c, f_id f, r_id r, t)) = 1
      then (case subscript (id_map c_id (COURSES d)) (c_id c) of
              Inl e \<Rightarrow> Inl e
            | Inr c' \<Rightarrow>
               (case subscript (id_map f_id (FACULTY d)) (f_id f) of
                  Inl e \<Rightarrow> Inl e
                | Inr f' \<Rightarrow>
                   (case subscript (id_map r_id (ROOMS d)) (r_id r) of
                      Inl e \<Rightarrow> Inl e
                    | Inr r' \<Rightarrow>
                       Inr [\<lparr>e_day = fst t, e_slot = snd t, e_course = c', e_faculty = f', e_room = r'\<rparr>])))
      else Inr [])"

definition decode :: "solver_data \<Rightarrow> key list \<Rightarrow> (var \<Rightarrow> int) \<Rightarrow> py_error + entry list" where
  "decode d sched val =
     collect (\<lambda>t. collect (\<lambda>c. collect (\<lambda>f. collect (\<lambda>r. decode_cell d sched val t c f r)
       (ROOMS d)) (FACULTY d)) (COURSES d)) (ALL_TIMESLOTS d)"

definition generate_schedule ::
  "solver \<Rightarrow> solver_data \<Rightarrow> temp_constraint list option \<Rightarrow> entry list option \<Rightarrow> py_error + entry list option" where
  "generate_schedule solve d temporary_constraints previous_schedule =
     (case solve (build_model d temporary_constraints previous_schedule) of
        (status, val) \<Rightarrow>
          if status = OPTIMAL \<or> status = FEASIBLE
          then (case decode d (define_variables d) val of
                  Inl e \<Rightarrow> Inl e
                | Inr results \<Rightarrow> Inr (Some (sort_key (\<lambda>x. (e_day x, e_slot x)) results)))
          else Inr None)"

section \<open>generate\_schedule, statement by statement\<close>

text \<open>
  The same function as a sequence of statements on its variables: the three arguments and
  the objects it creates (\<^verbatim>\<open>model\<close>, \<^verbatim>\<open>schedule\<close>, \<^verbatim>\<open>student_enrollments\<close>,
  \<^verbatim>\<open>old_schedule_map\<close>, \<^verbatim>\<open>reward_points\<close>, \<^verbatim>\<open>results\<close>). Every statement reads the
  variables it names in the source and returns the variables updated.
\<close>

record variables =
  v_data :: solver_data
  v_temporary_constraints :: "temp_constraint list option"
  v_previous_schedule :: "entry list option"
  v_model :: cp_model
  v_schedule :: "key list"
  v_student_enrollments :: "(int \<times> int list) list"
  v_old_schedule_map :: "int \<rightharpoonup> int \<times> int \<times> timeslot"
  v_reward_points :: "var list"
  v_results :: "entry list"


definition model_add :: "constraint list \<Rightarrow> variables \<Rightarrow> variables" where
  "model_add cs vs = vs\<lparr>v_model := (v_model vs)\<lparr>constraints := constraints (v_model vs) @ cs\<rparr>\<rparr>"

definition model_new_vars :: "var list \<Rightarrow> variables \<Rightarrow> variables" where
  "model_new_vars xs vs = vs\<lparr>v_model := (v_model vs)\<lparr>bool_vars := bool_vars (v_model vs) @ xs\<rparr>\<rparr>"










section \<open>The timeslot index (app.py)\<close>

record raw_timeslot =
  ts_id :: int
  day_of_week :: string
  start_time :: int

definition day_map :: "string \<rightharpoonup> int" where
  "day_map = map_of [(''Mon'', 0), (''Tue'', 1), (''Wed'', 2), (''Thu'', 3), (''Fri'', 4)]"

definition slot_indices_init :: "int \<rightharpoonup> int" where
  "slot_indices_init = map_of [(0, 0), (1, 0), (2, 0), (3, 0), (4, 0)]"

text \<open>One pass of the loop over \<^verbatim>\<open>all_timeslots_db\<close>, on the pair of the two dictionaries.\<close>

definition index_step ::
  "(int \<times> timeslot) list \<times> (int \<rightharpoonup> int) \<Rightarrow> raw_timeslot \<Rightarrow> py_error + (int \<times> timeslot) list \<times> (int \<rightharpoonup> int)" where
  "index_step s ts =
     (case s of (timeslot_id_map, slot_indices) \<Rightarrow>
        (case day_map (day_of_week ts) of
           None \<Rightarrow> Inr s
         | Some day_num \<Rightarrow>
            (case subscript slot_indices day_num of
               Inl e \<Rightarrow> Inl e
             | Inr current_slot_index \<Rightarrow>
                Inr (AList.update (ts_id ts) (day_num, current_slot_index) timeslot_id_map,
                     slot_indices(day_num \<mapsto> current_slot_index + 1)))))"

fun index_loop ::
  "(int \<times> timeslot) list \<times> (int \<rightharpoonup> int) \<Rightarrow> raw_timeslot list \<Rightarrow> py_error + (int \<times> timeslot) list \<times> (int \<rightharpoonup> int)" where
  "index_loop s [] = Inr s"
| "index_loop s (ts # tss) =
     (case index_step s ts of Inl e \<Rightarrow> Inl e | Inr s' \<Rightarrow> index_loop s' tss)"

definition timeslot_id_map :: "raw_timeslot list \<Rightarrow> py_error + (int \<times> timeslot) list" where
  "timeslot_id_map all_timeslots_db =
     (case index_loop ([], slot_indices_init) all_timeslots_db of
        Inl e \<Rightarrow> Inl e
      | Inr (m, slot_indices) \<Rightarrow> Inr m)"

definition ALL_TIMESLOTS_AS_TUPLES :: "(int \<times> timeslot) list \<Rightarrow> timeslot list" where
  "ALL_TIMESLOTS_AS_TUPLES m = map snd m"

text \<open>\<^verbatim>\<open>{v: k for k, v in TIMESLOT_ID_MAP.items()}\<close> of \<^verbatim>\<open>run_real_solver\<close>.\<close>

definition reverse_timeslot_map :: "(int \<times> timeslot) list \<Rightarrow> (timeslot \<rightharpoonup> int)" where
  "reverse_timeslot_map m = fold (\<lambda>(k, v) rm. rm(v \<mapsto> k)) m Map.empty"

section \<open>Notions used to state and prove the properties\<close>

text \<open>
  The record a dictionary comprehension holds under the identifier of \<open>x\<close>: the last
  record of the list with that identifier (\<open>x\<close> itself when the list has none, which
  does not happen for a member of the list).
\<close>

definition lookup_last :: "('a \<Rightarrow> int) \<Rightarrow> 'a list \<Rightarrow> 'a \<Rightarrow> 'a" where
  "lookup_last ident xs x = (case id_map ident xs (ident x) of None \<Rightarrow> x | Some y \<Rightarrow> y)"

definition mk_entry :: "solver_data \<Rightarrow> timeslot \<Rightarrow> course \<Rightarrow> faculty \<Rightarrow> room \<Rightarrow> entry" where
  "mk_entry d t c f r =
     \<lparr>e_day = fst t, e_slot = snd t,
      e_course = lookup_last c_id (COURSES d) c,
      e_faculty = lookup_last f_id (FACULTY d) f,
      e_room = lookup_last r_id (ROOMS d) r\<rparr>"

text \<open>The entries the decoding loops append, in their order, before the final sort.\<close>

definition entries_of :: "solver_data \<Rightarrow> key list \<Rightarrow> (var \<Rightarrow> int) \<Rightarrow> entry list" where
  "entries_of d sched val =
     [mk_entry d t c f r.
        t \<leftarrow> ALL_TIMESLOTS d, c \<leftarrow> COURSES d, f \<leftarrow> FACULTY d, r \<leftarrow> ROOMS d,
        mk_key c f r t \<in> set sched \<and> val (SchedVar (mk_key c f r t)) = 1]"

definition entry_key :: "entry \<Rightarrow> key" where
  "entry_key e = (c_id (e_course e), f_id (e_faculty e), r_id (e_room e), (e_day e, e_slot e))"

text \<open>Whether the solver's values choose a key of \<^verbatim>\<open>schedule\<close>: 1 or 0.\<close>

definition chosen :: "key list \<Rightarrow> (var \<Rightarrow> int) \<Rightarrow> key \<Rightarrow> nat" where
  "chosen sched val k = (if k \<in> set sched \<and> val (SchedVar k) = 1 then 1 else 0)"

text \<open>Every variable of \<^verbatim>\<open>schedule\<close> has the value 0 or 1.\<close>

definition bool_dom :: "key list \<Rightarrow> (var \<Rightarrow> int) \<Rightarrow> bool" where
  "bool_dom sched v = (\<forall>k \<in> set sched. v (SchedVar k) = 0 \<or> v (SchedVar k) = 1)"

text \<open>The courses a student elected, in the order of \<^verbatim>\<open>STUDENT_ELECTIONS\<close>.\<close>

definition enrolled_courses :: "solver_data \<Rightarrow> int \<Rightarrow> int list" where
  "enrolled_courses d sid = map course_id (filter (\<lambda>e. student_id e = sid) (STUDENT_ELECTIONS d))"

text \<open>The variables a constraint mentions.\<close>

fun lin_vars :: "linear_ct \<Rightarrow> var list" where
  "lin_vars (SumEq xs n) = xs"
| "lin_vars (SumLe xs n) = xs"

fun ct_vars :: "constraint \<Rightarrow> var list" where
  "ct_vars (Add l) = lin_vars l"
| "ct_vars (AddOnlyEnforceIf l b) = b # lin_vars l"

text \<open>Values that keep the schedule variables of \<open>v\<close> and set every reward variable to 1.\<close>

definition all_rewards :: "(var \<Rightarrow> int) \<Rightarrow> var \<Rightarrow> int" where
  "all_rewards v x = (case x of SchedVar k \<Rightarrow> v x | RewardVar i \<Rightarrow> 1)"


text \<open>
  The number of records of a weekday in a list of raw timeslots, and the index the loop of
  \<^verbatim>\<open>get_all_solver_data\<close> is expected to build: every weekday record, in the order given,
  with its day number and the number of records of the same day before it.
\<close>

definition day_count :: "int \<Rightarrow> raw_timeslot list \<Rightarrow> nat" where
  "day_count day_num tss = length (filter (\<lambda>ts. day_map (day_of_week ts) = Some day_num) tss)"

definition index_of :: "raw_timeslot list \<Rightarrow> (int \<times> timeslot) list" where
  "index_of tss =
     concat (map (\<lambda>i. case day_map (day_of_week (tss ! i)) of
                          None \<Rightarrow> []
                        | Some day_num \<Rightarrow> [(ts_id (tss ! i), (day_num, int (day_count day_num (take i tss))))])
               [0..<length tss])"

definition counters_of :: "raw_timeslot list \<Rightarrow> (int \<rightharpoonup> int)" where
  "counters_of tss day_num =
     (if 0 \<le> day_num \<and> day_num \<le> 4 then Some (int (day_count day_num tss)) else None)"

section \<open>A small timetable\<close>

text \<open>
  Two courses, two teachers, two rooms and two timeslots on Monday. Course 1 is a lecture
  either teacher can give, course 2 a lab only teacher 2 gives; student 7 takes both and
  student 8 takes course 2.
\<close>

definition ex_course1 :: course where
  "ex_course1 = \<lparr>c_id = 1, c_code = ''CS101'', c_name = ''Programming'', c_type = ''lecture'',
                  c_enrollment = 30, c_preferred_faculty = [1, 2]\<rparr>"

definition ex_course2 :: course where
  "ex_course2 = \<lparr>c_id = 2, c_code = ''CS102'', c_name = ''Circuits'', c_type = ''lab'',
                  c_enrollment = 20, c_preferred_faculty = [2]\<rparr>"

definition ex_faculty1 :: faculty where
  "ex_faculty1 = \<lparr>f_id = 1, f_name = ''Rao'', f_availability = [(0, 0), (0, 1)]\<rparr>"

definition ex_faculty2 :: faculty where
  "ex_faculty2 = \<lparr>f_id = 2, f_name = ''Iyer'', f_availability = [(0, 0), (0, 1)]\<rparr>"

definition ex_room1 :: room where
  "ex_room1 = \<lparr>r_id = 1, r_name = ''Hall'', r_capacity = 40, r_type = ''lecture''\<rparr>"

definition ex_room2 :: room where
  "ex_room2 = \<lparr>r_id = 2, r_name = ''Lab'', r_capacity = 25, r_type = ''lab''\<rparr>"

definition ex_data :: solver_data where
  "ex_data = \<lparr>COURSES = [ex_course1, ex_course2], FACULTY = [ex_faculty1, ex_faculty2],
               ROOMS = [ex_room1, ex_room2],
               STUDENT_ELECTIONS = [\<lparr>student_id = 7, course_id = 1\<rparr>, \<lparr>student_id = 7, course_id = 2\<rparr>,
                                    \<lparr>student_id = 8, course_id = 2\<rparr>],
               ALL_TIMESLOTS = [(0, 0), (0, 1)]\<rparr>"

text \<open>Course 1 with teacher 1 in the hall in slot 0, course 2 with teacher 2 in the lab in slot 1.\<close>

definition ex_val :: "var \<Rightarrow> int" where
  "ex_val x = (case x of
       SchedVar k \<Rightarrow> if k = (1, 1, 1, (0, 0)) \<or> k = (2, 2, 2, (0, 1)) then 1 else 0
     | RewardVar i \<Rightarrow> 1)"

definition ex_solve :: solver where
  "ex_solve m = (OPTIMAL, ex_val)"

definition ex_schedule :: "entry list" where
  "ex_schedule =
     [\<lparr>e_day = 0, e_slot = 0, e_course = ex_course1, e_faculty = ex_faculty1, e_room = ex_room1\<rparr>,
      \<lparr>e_day = 0, e_slot = 1, e_course = ex_course2, e_faculty = ex_faculty2, e_room = ex_room2\<rparr>]"

text \<open>The other way round: course 1 in slot 1, course 2 in slot 0.\<close>

definition ex_val' :: "var \<Rightarrow> int" where
  "ex_val' x = (case x of
       SchedVar k \<Rightarrow> if k = (1, 1, 1, (0, 1)) \<or> k = (2, 2, 2, (0, 0)) then 1 else 0
     | RewardVar i \<Rightarrow> 0)"

definition ex_solve' :: solver where
  "ex_solve' m = (FEASIBLE, ex_val')"

definition ex_schedule' :: "entry list" where
  "ex_schedule' =
     [\<lparr>e_day = 0, e_slot = 0, e_course = ex_course2, e_faculty = ex_faculty2, e_room = ex_room2\<rparr>,
      \<lparr>e_day = 0, e_slot = 1, e_course = ex_course1, e_faculty = ex_faculty1, e_room = ex_room1\<rparr>]"

text \<open>Raw timeslots as the query returns them: two on Monday, one on Saturday, one on Tuesday.\<close>

definition ex_timeslots :: "raw_timeslot list" where
  "ex_timeslots =
     [\<lparr>ts_id = 11, day_of_week = ''Mon'', start_time = 540\<rparr>,
      \<lparr>ts_id = 5, day_of_week = ''Mon'', start_time = 600\<rparr>,
      \<lparr>ts_id = 9, day_of_week = ''Sat'', start_time = 540\<rparr>,
      \<lparr>ts_id = 2, day_of_week = ''Tue'', start_time = 540\<rparr>]"

definition ex_index :: "(int \<times> timeslot) list" where
  "ex_index = [(11, (0, 0)), (5, (0, 1)), (2, (1, 0))]"

definition ex_lock :: temp_constraint where
  "ex_lock = \<lparr>tc_faculty_id = Some 1, tc_day = Some 0, tc_slot = Some 0\<rparr>"

text \<open>A solver that gives up, and one that reports infeasibility.\<close>

definition ex_unknown :: solver where
  "ex_unknown m = (UNKNOWN, \<lambda>x. 0)"

definition ex_infeasible :: solver where
  "ex_infeasible m = (INFEASIBLE, \<lambda>x. 0)"

text \<open>The same timetable with a third course that nobody is preferred for.\<close>

definition ex_course3 :: course where
  "ex_course3 = \<lparr>c_id = 3, c_code = ''CS103'', c_name = ''Logic'', c_type = ''lecture'',
                  c_enrollment = 10, c_preferred_faculty = []\<rparr>"

definition ex_data3 :: solver_data where
  "ex_data3 = ex_data\<lparr>COURSES := [ex_course1, ex_course2, ex_course3]\<rparr>"

section \<open>Lists, sums and dictionaries\<close>

subsection \<open>Sums over lists\<close>

lemma sum_list_int_map:
  "sum_list (map (\<lambda>x. int (g x)) xs) = int (sum_list (map g xs))"
  by (induction xs) simp_all

lemma length_filter_concat_map:
  "length (filter P (concat (map F xs))) = sum_list (map (\<lambda>x. length (filter P (F x))) xs)"
  by (induction xs) simp_all

lemma sum_list_indicator:
  "sum_list (map (\<lambda>x. if P x then k else 0) xs) = length (filter P xs) * (k::nat)"
  by (induction xs) simp_all

lemma sum_list_pos_ex:
  fixes g :: "'a \<Rightarrow> nat"
  assumes "0 < sum_list (map g xs)"
  shows "\<exists>x \<in> set xs. 0 < g x"
  using assms by (induction xs) auto

lemma sum_list_le1_unique:
  fixes g :: "'a \<Rightarrow> nat"
  assumes "sum_list (map g xs) \<le> 1" "x \<in> set xs" "y \<in> set xs" "0 < g x" "0 < g y"
  shows "x = y"
  using assms
proof (induction xs)
  case Nil
  then show ?case by simp
next
  case (Cons a xs)
  show ?case
  proof (cases "0 < g a")
    case True
    then have z: "sum_list (map g xs) = 0" using Cons.prems(1) by (simp del: sum_list_eq_0_iff)
    then have "\<forall>u \<in> set xs. g u = 0" by simp
    with Cons.prems True show ?thesis by auto
  next
    case False
    with Cons show ?thesis by auto
  qed
qed

lemma two_members_length_filter:
  assumes "x \<in> set xs" "y \<in> set xs" "x \<noteq> y" "P x" "P y"
  shows "2 \<le> length (filter P xs)"
proof -
  have "x \<in> set (filter P xs)" "y \<in> set (filter P xs)" using assms by auto
  then have "{x, y} \<subseteq> set (filter P xs)" by simp
  then have "card {x, y} \<le> card (set (filter P xs))" by (intro card_mono) auto
  also have "\<dots> \<le> length (filter P xs)" by (rule card_length)
  finally show ?thesis using assms(3) by simp
qed

subsection \<open>Dictionary comprehensions\<close>

lemma fold_upd_cases:
  "fold (\<lambda>x m. m(ident x \<mapsto> x)) xs m0 k = Some y \<Longrightarrow>
     m0 k = Some y \<or> (y \<in> set xs \<and> ident y = k)"
  by (induction xs arbitrary: m0) (fastforce split: if_splits)+

lemma fold_upd_dom:
  "fold (\<lambda>x m. m(ident x \<mapsto> x)) xs m0 k = None \<longleftrightarrow> (m0 k = None \<and> k \<notin> ident ` set xs)"
  by (induction xs arbitrary: m0) auto

lemma id_map_Some:
  assumes "x \<in> set xs"
  shows "\<exists>y \<in> set xs. id_map ident xs (ident x) = Some y \<and> ident y = ident x"
proof -
  have "id_map ident xs (ident x) \<noteq> None"
    using assms by (simp add: id_map_def fold_upd_dom)
  then obtain y where y: "id_map ident xs (ident x) = Some y" by blast
  then have "y \<in> set xs \<and> ident y = ident x"
    using fold_upd_cases[of ident xs Map.empty "ident x" y] by (simp add: id_map_def)
  with y show ?thesis by blast
qed

lemma collect_Inr:
  "(\<And>x. x \<in> set xs \<Longrightarrow> body x = Inr (g x)) \<Longrightarrow> collect body xs = Inr (concat (map g xs))"
  by (induction xs) simp_all

lemma subscript_id_map:
  "x \<in> set xs \<Longrightarrow> subscript (id_map ident xs) (ident x) = Inr (lookup_last ident xs x)"
  using id_map_Some[of x xs ident] by (auto simp: subscript_def lookup_last_def)

lemma lookup_last_mem: "x \<in> set xs \<Longrightarrow> lookup_last ident xs x \<in> set xs"
  using id_map_Some[of x xs ident] by (auto simp: lookup_last_def)

lemma lookup_last_ident: "x \<in> set xs \<Longrightarrow> ident (lookup_last ident xs x) = ident x"
  using id_map_Some[of x xs ident] by (auto simp: lookup_last_def)

subsection \<open>Decoding never raises\<close>

lemma decode_cell_eq:
  assumes "c \<in> set (COURSES d)" "f \<in> set (FACULTY d)" "r \<in> set (ROOMS d)"
  shows "decode_cell d sched val t c f r =
           Inr (if mk_key c f r t \<in> set sched \<and> val (SchedVar (mk_key c f r t)) = 1
                then [mk_entry d t c f r] else [])"
  using assms by (simp add: decode_cell_def subscript_id_map mk_key_def mk_entry_def)

lemma decode_eq: "decode d sched val = Inr (entries_of d sched val)"
  unfolding decode_def entries_of_def
  by (intro collect_Inr) (simp add: decode_cell_eq)

lemma generate_schedule_eq:
  "generate_schedule solve d tcs prev =
     Inr (case solve (build_model d tcs prev) of
            (status, val) \<Rightarrow>
              if status = OPTIMAL \<or> status = FEASIBLE
              then Some (sort_key (\<lambda>x. (e_day x, e_slot x)) (entries_of d (define_variables d) val))
              else None)"
  by (simp add: generate_schedule_def decode_eq split: prod.splits)

section \<open>What a satisfied model says about the chosen keys\<close>


lemma chosen_int:
  "bool_dom sched v \<Longrightarrow> (if k \<in> set sched then v (SchedVar k) else 0) = int (chosen sched v k)"
  by (auto simp: bool_dom_def chosen_def)

lemma sum_list_concat_map:
  fixes v :: "'b \<Rightarrow> int"
  shows "sum_list (map v (concat (map F xs))) = sum_list (map (\<lambda>x. sum_list (map v (F x))) xs)"
  by (induction xs) simp_all

lemma sum_list_guard:
  fixes v :: "var \<Rightarrow> int"
  shows "sum_list (map v (if P then [a] else [])) = (if P then v a else 0)"
  by simp

lemma satisfies_hard:
  assumes "satisfies (build_model d tcs prev) v"
  shows "bool_dom (define_variables d) v"
    and "\<And>c. c \<in> set (course_uniqueness d (define_variables d)) \<Longrightarrow> ct_holds v c"
    and "\<And>c. c \<in> set (faculty_conflict d (define_variables d)) \<Longrightarrow> ct_holds v c"
    and "\<And>c. c \<in> set (room_conflict d (define_variables d)) \<Longrightarrow> ct_holds v c"
    and "\<And>c. c \<in> set (student_conflict d (define_variables d)) \<Longrightarrow> ct_holds v c"
    and "\<And>c. c \<in> set (temporary d (define_variables d) tcs) \<Longrightarrow> ct_holds v c"
  using assms
  by (auto simp: satisfies_def build_model_def hard_constraints_def Let_def bool_dom_def split: option.splits)

lemma coverage_sum:
  assumes "satisfies (build_model d tcs prev) v" "c \<in> set (COURSES d)"
  shows "(\<Sum>f\<leftarrow>FACULTY d. \<Sum>r\<leftarrow>ROOMS d. \<Sum>t\<leftarrow>ALL_TIMESLOTS d.
            chosen (define_variables d) v (c_id c, f_id f, r_id r, t)) = 1"
proof -
  let ?S = "define_variables d"
  have dom: "bool_dom ?S v" using assms(1) by (rule satisfies_hard)
  have "ct_holds v (Add (SumEq [SchedVar (c_id c, f_id f, r_id r, t).
                    f \<leftarrow> FACULTY d, r \<leftarrow> ROOMS d, t \<leftarrow> ALL_TIMESLOTS d,
                    (c_id c, f_id f, r_id r, t) \<in> set ?S] 1))"
    using assms by (intro satisfies_hard(2)[OF assms(1)]) (auto simp: course_uniqueness_def)
  then have "int (\<Sum>f\<leftarrow>FACULTY d. \<Sum>r\<leftarrow>ROOMS d. \<Sum>t\<leftarrow>ALL_TIMESLOTS d.
            chosen ?S v (c_id c, f_id f, r_id r, t)) = 1"
    by (simp add: sum_list_concat_map sum_list_guard chosen_int[OF dom] sum_list_int_map)
  then show ?thesis by linarith
qed

lemma faculty_sum:
  assumes "satisfies (build_model d tcs prev) v" "f \<in> set (FACULTY d)" "t \<in> set (ALL_TIMESLOTS d)"
  shows "(\<Sum>c\<leftarrow>COURSES d. \<Sum>r\<leftarrow>ROOMS d.
            chosen (define_variables d) v (c_id c, f_id f, r_id r, t)) \<le> 1"
proof -
  let ?S = "define_variables d"
  have dom: "bool_dom ?S v" using assms(1) by (rule satisfies_hard)
  have "ct_holds v (Add (SumLe [SchedVar (c_id c, f_id f, r_id r, t).
                    c \<leftarrow> COURSES d, r \<leftarrow> ROOMS d,
                    (c_id c, f_id f, r_id r, t) \<in> set ?S] 1))"
    using assms by (intro satisfies_hard(3)[OF assms(1)]) (auto simp: faculty_conflict_def)
  then have "int (\<Sum>c\<leftarrow>COURSES d. \<Sum>r\<leftarrow>ROOMS d.
            chosen ?S v (c_id c, f_id f, r_id r, t)) \<le> 1"
    by (simp add: sum_list_concat_map sum_list_guard chosen_int[OF dom] sum_list_int_map)
  then show ?thesis by linarith
qed

lemma room_sum:
  assumes "satisfies (build_model d tcs prev) v" "r \<in> set (ROOMS d)" "t \<in> set (ALL_TIMESLOTS d)"
  shows "(\<Sum>c\<leftarrow>COURSES d. \<Sum>f\<leftarrow>FACULTY d.
            chosen (define_variables d) v (c_id c, f_id f, r_id r, t)) \<le> 1"
proof -
  let ?S = "define_variables d"
  have dom: "bool_dom ?S v" using assms(1) by (rule satisfies_hard)
  have "ct_holds v (Add (SumLe [SchedVar (c_id c, f_id f, r_id r, t).
                    c \<leftarrow> COURSES d, f \<leftarrow> FACULTY d,
                    (c_id c, f_id f, r_id r, t) \<in> set ?S] 1))"
    using assms by (intro satisfies_hard(4)[OF assms(1)]) (auto simp: room_conflict_def)
  then have "int (\<Sum>c\<leftarrow>COURSES d. \<Sum>f\<leftarrow>FACULTY d.
            chosen ?S v (c_id c, f_id f, r_id r, t)) \<le> 1"
    by (simp add: sum_list_concat_map sum_list_guard chosen_int[OF dom] sum_list_int_map)
  then show ?thesis by linarith
qed


lemma lock_zero:
  assumes "satisfies (build_model d (Some tcs) prev) v" "tc \<in> set tcs"
    "tc_faculty_id tc = Some F" "tc_day tc = Some D" "tc_slot tc = Some S"
    "c \<in> set (COURSES d)" "r \<in> set (ROOMS d)"
  shows "chosen (define_variables d) v (c_id c, F, r_id r, (D, S)) = 0"
proof (cases "(c_id c, F, r_id r, (D, S)) \<in> set (define_variables d)")
  case True
  have "Add (SumEq [SchedVar (c_id c, F, r_id r, (D, S))] 0) \<in> set (apply_constraint d (define_variables d) tc)"
    using assms True by (auto simp: apply_constraint_def)
  then have "Add (SumEq [SchedVar (c_id c, F, r_id r, (D, S))] 0) \<in> set (temporary d (define_variables d) (Some tcs))"
    using assms(2) by (auto simp: temporary_def)
  then have "ct_holds v (Add (SumEq [SchedVar (c_id c, F, r_id r, (D, S))] 0))"
    by (rule satisfies_hard(6)[OF assms(1)])
  then show ?thesis by (simp add: chosen_def)
next
  case False
  then show ?thesis by (simp add: chosen_def)
qed

lemma entry_key_mk_entry:
  assumes "c \<in> set (COURSES d)" "f \<in> set (FACULTY d)" "r \<in> set (ROOMS d)"
  shows "entry_key (mk_entry d t c f r) = (c_id c, f_id f, r_id r, t)"
  using assms by (simp add: entry_key_def mk_entry_def lookup_last_ident)

lemma sum4_reorder:
  fixes g :: "'t \<Rightarrow> 'c \<Rightarrow> 'f \<Rightarrow> 'r \<Rightarrow> nat"
  shows "(\<Sum>t\<leftarrow>ts. \<Sum>c\<leftarrow>cs. \<Sum>f\<leftarrow>fs. \<Sum>r\<leftarrow>rs. g t c f r) =
         (\<Sum>c\<leftarrow>cs. \<Sum>f\<leftarrow>fs. \<Sum>r\<leftarrow>rs. \<Sum>t\<leftarrow>ts. g t c f r)"
  by (induction ts) (simp_all add: sum_list_addf)

lemma sum_list_if_out:
  fixes g :: "'a \<Rightarrow> nat"
  shows "(\<Sum>x\<leftarrow>xs. if A then g x else 0) = (if A then (\<Sum>x\<leftarrow>xs. g x) else 0)"
  by simp

lemma count_entries:
  "length (filter (\<lambda>e. Q (entry_key e)) (entries_of d sched v)) =
     (\<Sum>t\<leftarrow>ALL_TIMESLOTS d. \<Sum>c\<leftarrow>COURSES d. \<Sum>f\<leftarrow>FACULTY d. \<Sum>r\<leftarrow>ROOMS d.
        if Q (c_id c, f_id f, r_id r, t) then chosen sched v (c_id c, f_id f, r_id r, t) else 0)"
proof -
  have "length (filter (\<lambda>e. Q (entry_key e)) (entries_of d sched v)) =
     (\<Sum>t\<leftarrow>ALL_TIMESLOTS d. \<Sum>c\<leftarrow>COURSES d. \<Sum>f\<leftarrow>FACULTY d. \<Sum>r\<leftarrow>ROOMS d.
        length (filter (\<lambda>e. Q (entry_key e))
          (if mk_key c f r t \<in> set sched \<and> v (SchedVar (mk_key c f r t)) = 1
           then [mk_entry d t c f r] else [])))"
    by (simp add: entries_of_def length_filter_concat_map)
  also have "\<dots> = (\<Sum>t\<leftarrow>ALL_TIMESLOTS d. \<Sum>c\<leftarrow>COURSES d. \<Sum>f\<leftarrow>FACULTY d. \<Sum>r\<leftarrow>ROOMS d.
        if Q (c_id c, f_id f, r_id r, t) then chosen sched v (c_id c, f_id f, r_id r, t) else 0)"
    by (intro arg_cong[where f = sum_list] map_cong refl)
       (simp add: entry_key_mk_entry chosen_def mk_key_def)
  finally show ?thesis .
qed

lemma indicator2:
  "(\<Sum>x\<leftarrow>xs. \<Sum>y\<leftarrow>ys. if A x \<and> B y then 1 else (0::nat)) =
     length (filter A xs) * length (filter B ys)"
proof -
  have "(\<Sum>x\<leftarrow>xs. \<Sum>y\<leftarrow>ys. if A x \<and> B y then 1 else (0::nat)) =
        (\<Sum>x\<leftarrow>xs. if A x then (\<Sum>y\<leftarrow>ys. if B y then 1 else 0) else 0)"
    by (intro arg_cong[where f = sum_list] map_cong refl) simp
  then show ?thesis by (simp add: sum_list_indicator)
qed

lemma indicator3:
  "(\<Sum>x\<leftarrow>xs. \<Sum>y\<leftarrow>ys. \<Sum>z\<leftarrow>zs. if A x \<and> B y \<and> C z then 1 else (0::nat)) =
     length (filter A xs) * (length (filter B ys) * length (filter C zs))"
proof -
  have inner: "(\<Sum>y\<leftarrow>ys. \<Sum>z\<leftarrow>zs. if A x \<and> B y \<and> C z then 1 else (0::nat)) =
        (if A x then length (filter B ys) * length (filter C zs) else 0)" for x
    by (cases "A x") (simp_all add: indicator2)
  show ?thesis unfolding inner by (simp add: sum_list_indicator)
qed

lemma nat_mult_le_1:
  fixes a b :: nat
  assumes "0 < a" "0 < b" "a * b \<le> 1"
  shows "a = 1 \<and> b = 1"
  using assms by (cases a; cases b) auto

text \<open>A chosen key comes from one record of each list only.\<close>

lemma chosen_unique:
  assumes sat: "satisfies (build_model d tcs prev) v"
    and mem: "c \<in> set (COURSES d)" "f \<in> set (FACULTY d)" "r \<in> set (ROOMS d)" "t \<in> set (ALL_TIMESLOTS d)"
    and ch: "chosen (define_variables d) v (c_id c, f_id f, r_id r, t) = 1"
  shows "length (filter (\<lambda>c'. c_id c' = c_id c) (COURSES d)) = 1"
    and "length (filter (\<lambda>f'. f_id f' = f_id f) (FACULTY d)) = 1"
    and "length (filter (\<lambda>r'. r_id r' = r_id r) (ROOMS d)) = 1"
    and "length (filter (\<lambda>t'. t' = t) (ALL_TIMESLOTS d)) = 1"
proof -
  let ?S = "define_variables d"
  let ?mC = "length (filter (\<lambda>c'. c_id c' = c_id c) (COURSES d))"
  let ?mF = "length (filter (\<lambda>f'. f_id f' = f_id f) (FACULTY d))"
  let ?mR = "length (filter (\<lambda>r'. r_id r' = r_id r) (ROOMS d))"
  let ?mT = "length (filter (\<lambda>t'. t' = t) (ALL_TIMESLOTS d))"
  have pos: "0 < ?mC" "0 < ?mF" "0 < ?mR" "0 < ?mT"
    using mem by (auto simp: filter_empty_conv)
  have "(\<Sum>f'\<leftarrow>FACULTY d. \<Sum>r'\<leftarrow>ROOMS d. \<Sum>t'\<leftarrow>ALL_TIMESLOTS d.
           if f_id f' = f_id f \<and> r_id r' = r_id r \<and> t' = t then 1 else (0::nat))
        \<le> (\<Sum>f'\<leftarrow>FACULTY d. \<Sum>r'\<leftarrow>ROOMS d. \<Sum>t'\<leftarrow>ALL_TIMESLOTS d.
              chosen ?S v (c_id c, f_id f', r_id r', t'))"
    by (intro sum_list_mono) (simp add: ch)
  also have "\<dots> = 1" using sat mem(1) by (rule coverage_sum)
  finally have a: "?mF * (?mR * ?mT) \<le> 1" by (simp only: indicator3)
  have "(\<Sum>c'\<leftarrow>COURSES d. \<Sum>r'\<leftarrow>ROOMS d.
           if c_id c' = c_id c \<and> r_id r' = r_id r then 1 else (0::nat))
        \<le> (\<Sum>c'\<leftarrow>COURSES d. \<Sum>r'\<leftarrow>ROOMS d. chosen ?S v (c_id c', f_id f, r_id r', t))"
    by (intro sum_list_mono) (simp add: ch)
  also have "\<dots> \<le> 1" using sat mem(2) mem(4) by (rule faculty_sum)
  finally have b: "?mC * ?mR \<le> 1" by (simp only: indicator2)
  have rt: "0 < ?mR * ?mT" using pos by simp
  from nat_mult_le_1[OF pos(2) rt a] have f1: "?mF = 1" and "?mR * ?mT \<le> 1" by simp_all
  from nat_mult_le_1[OF pos(3) pos(4) this(2)] have r1: "?mR = 1" and t1: "?mT = 1" by simp_all
  from nat_mult_le_1[OF pos(1) pos(3) b] have c1: "?mC = 1" by simp
  show "?mC = 1" "?mF = 1" "?mR = 1" "?mT = 1" by (fact c1 f1 r1 t1)+
qed

section \<open>The variables\<close>

lemma set_define_variables:
  "set (define_variables d) =
     {mk_key c f r t | c f r t.
        c \<in> set (COURSES d) \<and> f \<in> set (FACULTY d) \<and> r \<in> set (ROOMS d) \<and>
        t \<in> set (ALL_TIMESLOTS d) \<and> eligible c f r t}"
  by (fastforce simp: define_variables_def)


section \<open>The example evaluated\<close>

lemmas ex_defs = ex_data_def ex_course1_def ex_course2_def ex_faculty1_def ex_faculty2_def
  ex_room1_def ex_room2_def

lemma ex_vars:
  "define_variables ex_data =
     [(1, 1, 1, (0, 0)), (1, 1, 1, (0, 1)), (1, 2, 1, (0, 0)), (1, 2, 1, (0, 1)),
      (2, 2, 2, (0, 0)), (2, 2, 2, (0, 1))]"
  by (simp add: define_variables_def ex_defs eligible_def mk_key_def)

lemma ex_enrollments: "student_enrollments ex_data = [(7, [1, 2]), (8, [2])]"
  by (simp add: student_enrollments_def ex_data_def add_election_def)

lemma ex_hard:
  "hard_constraints ex_data
     [(1, 1, 1, (0, 0)), (1, 1, 1, (0, 1)), (1, 2, 1, (0, 0)), (1, 2, 1, (0, 1)),
      (2, 2, 2, (0, 0)), (2, 2, 2, (0, 1))] None =
      [Add (SumEq
             [SchedVar (1, 1, 1, 0, 0), SchedVar (1, 1, 1, 0, 1),
              SchedVar (1, 2, 1, 0, 0), SchedVar (1, 2, 1, 0, 1)]
             1),
       Add (SumEq [SchedVar (2, 2, 2, 0, 0), SchedVar (2, 2, 2, 0, 1)] 1),
       Add (SumLe [SchedVar (1, 1, 1, 0, 0)] 1),
       Add (SumLe [SchedVar (1, 1, 1, 0, 1)] 1),
       Add (SumLe [SchedVar (1, 2, 1, 0, 0), SchedVar (2, 2, 2, 0, 0)] 1),
       Add (SumLe [SchedVar (1, 2, 1, 0, 1), SchedVar (2, 2, 2, 0, 1)] 1),
       Add (SumLe [SchedVar (1, 1, 1, 0, 0), SchedVar (1, 2, 1, 0, 0)] 1),
       Add (SumLe [SchedVar (1, 1, 1, 0, 1), SchedVar (1, 2, 1, 0, 1)] 1),
       Add (SumLe [SchedVar (2, 2, 2, 0, 0)] 1),
       Add (SumLe [SchedVar (2, 2, 2, 0, 1)] 1),
       Add (SumLe
             [SchedVar (1, 1, 1, 0, 0), SchedVar (1, 2, 1, 0, 0),
              SchedVar (2, 2, 2, 0, 0)]
             1),
       Add (SumLe
             [SchedVar (1, 1, 1, 0, 1), SchedVar (1, 2, 1, 0, 1),
              SchedVar (2, 2, 2, 0, 1)]
             1),
       Add (SumLe [SchedVar (2, 2, 2, 0, 0)] 1),
       Add (SumLe [SchedVar (2, 2, 2, 0, 1)] 1)]"
  unfolding hard_constraints_def ex_enrollments student_conflict_def student_constraints_of_def
  by (simp add: course_uniqueness_def faculty_conflict_def room_conflict_def temporary_def ex_defs)

lemma ex_sat: "satisfies (build_model ex_data None None) ex_val"
  by (simp add: build_model_def reward_list_def satisfies_def ex_vars ex_hard ex_val_def)

lemma ex_entries: "entries_of ex_data (define_variables ex_data) ex_val = ex_schedule"
  unfolding ex_vars
  by (simp add: entries_of_def ex_defs mk_key_def ex_val_def mk_entry_def lookup_last_def id_map_def
      ex_schedule_def)

lemma ex_sorted: "sort_key (\<lambda>x. (e_day x, e_slot x)) ex_schedule = ex_schedule"
  by (simp add: ex_schedule_def)

lemma ex_result: "generate_schedule ex_solve ex_data tcs prev = Inr (Some ex_schedule)"
  by (simp add: generate_schedule_eq ex_solve_def ex_entries ex_sorted)


section \<open>The eligibility filter\<close>

lemma distinct_map_eq:
  assumes "distinct (map ident xs)" "x \<in> set xs" "y \<in> set xs" "ident x = ident y"
  shows "x = y"
  using assms by (meson distinct_map inj_onD)

text \<open>
  C4 (eligibility filter). The keys of the decision variables are exactly the identifiers
  of the quadruples (course, faculty, room, timeslot) of the input that pass the four
  tests jointly: the faculty is one of the course's preferred faculty, the timeslot is in
  the faculty's availability, the room's capacity is at least the course's enrollment, and
  the types of room and course are equal. Where identifiers are unique, a quadruple of
  the input has a variable if and only if it passes the four tests.
\<close>

theorem eligibility_filter:
  "set (define_variables d) =
     {(c_id c, f_id f, r_id r, t) | c f r t.
        c \<in> set (COURSES d) \<and> f \<in> set (FACULTY d) \<and> r \<in> set (ROOMS d) \<and>
        t \<in> set (ALL_TIMESLOTS d) \<and>
        f_id f \<in> set (c_preferred_faculty c) \<and> t \<in> set (f_availability f) \<and>
        r_capacity r \<ge> c_enrollment c \<and> c_type c = r_type r} \<and>
   (distinct (map c_id (COURSES d)) \<and> distinct (map f_id (FACULTY d)) \<and>
    distinct (map r_id (ROOMS d)) \<longrightarrow>
      (\<forall>c \<in> set (COURSES d). \<forall>f \<in> set (FACULTY d). \<forall>r \<in> set (ROOMS d).
       \<forall>t \<in> set (ALL_TIMESLOTS d).
         (c_id c, f_id f, r_id r, t) \<in> set (define_variables d) \<longleftrightarrow>
           f_id f \<in> set (c_preferred_faculty c) \<and> t \<in> set (f_availability f) \<and>
           r_capacity r \<ge> c_enrollment c \<and> c_type c = r_type r))"
proof (intro conjI impI ballI)
  show keys: "set (define_variables d) =
     {(c_id c, f_id f, r_id r, t) | c f r t.
        c \<in> set (COURSES d) \<and> f \<in> set (FACULTY d) \<and> r \<in> set (ROOMS d) \<and>
        t \<in> set (ALL_TIMESLOTS d) \<and>
        f_id f \<in> set (c_preferred_faculty c) \<and> t \<in> set (f_availability f) \<and>
        r_capacity r \<ge> c_enrollment c \<and> c_type c = r_type r}"
    by (simp add: set_define_variables mk_key_def eligible_def)
  fix c f r t
  assume dist: "distinct (map c_id (COURSES d)) \<and> distinct (map f_id (FACULTY d)) \<and>
    distinct (map r_id (ROOMS d))"
    and mem: "c \<in> set (COURSES d)" "f \<in> set (FACULTY d)" "r \<in> set (ROOMS d)"
      "t \<in> set (ALL_TIMESLOTS d)"
  show "(c_id c, f_id f, r_id r, t) \<in> set (define_variables d) \<longleftrightarrow>
           f_id f \<in> set (c_preferred_faculty c) \<and> t \<in> set (f_availability f) \<and>
           r_capacity r \<ge> c_enrollment c \<and> c_type c = r_type r"
  proof
    assume "(c_id c, f_id f, r_id r, t) \<in> set (define_variables d)"
    then obtain c' f' r' where q: "c' \<in> set (COURSES d)" "f' \<in> set (FACULTY d)" "r' \<in> set (ROOMS d)"
      "c_id c' = c_id c" "f_id f' = f_id f" "r_id r' = r_id r" "eligible c' f' r' t"
      by (auto simp: set_define_variables mk_key_def)
    have "c' = c" "f' = f" "r' = r"
      using dist q mem by (blast intro: distinct_map_eq)+
    with q(7) show "f_id f \<in> set (c_preferred_faculty c) \<and> t \<in> set (f_availability f) \<and>
           r_capacity r \<ge> c_enrollment c \<and> c_type c = r_type r"
      by (simp add: eligible_def)
  next
    assume "f_id f \<in> set (c_preferred_faculty c) \<and> t \<in> set (f_availability f) \<and>
           r_capacity r \<ge> c_enrollment c \<and> c_type c = r_type r"
    then have "eligible c f r t" by (simp add: eligible_def)
    with mem show "(c_id c, f_id f, r_id r, t) \<in> set (define_variables d)"
      unfolding set_define_variables mk_key_def by blast
  qed
qed

theorem eligibility_filter_witness:
  "distinct (map c_id (COURSES ex_data)) \<and> distinct (map f_id (FACULTY ex_data)) \<and>
   distinct (map r_id (ROOMS ex_data)) \<and>
   (c_id ex_course1, f_id ex_faculty2, r_id ex_room1, (0, 1)) \<in> set (define_variables ex_data) \<and>
   (c_id ex_course2, f_id ex_faculty1, r_id ex_room2, (0, 0)) \<notin> set (define_variables ex_data) \<and>
   f_id ex_faculty1 \<notin> set (c_preferred_faculty ex_course2)"
proof -
  have dist: "distinct (map c_id (COURSES ex_data)) \<and> distinct (map f_id (FACULTY ex_data)) \<and>
     distinct (map r_id (ROOMS ex_data))"
    by (simp add: ex_defs)
  have mem: "ex_course1 \<in> set (COURSES ex_data)" "ex_course2 \<in> set (COURSES ex_data)"
    "ex_faculty1 \<in> set (FACULTY ex_data)" "ex_faculty2 \<in> set (FACULTY ex_data)"
    "ex_room1 \<in> set (ROOMS ex_data)" "ex_room2 \<in> set (ROOMS ex_data)"
    "(0, 0) \<in> set (ALL_TIMESLOTS ex_data)" "(0, 1) \<in> set (ALL_TIMESLOTS ex_data)"
    by (simp_all add: ex_data_def)
  from eligibility_filter[of ex_data] dist
  have iff: "\<forall>c \<in> set (COURSES ex_data). \<forall>f \<in> set (FACULTY ex_data). \<forall>r \<in> set (ROOMS ex_data).
       \<forall>t \<in> set (ALL_TIMESLOTS ex_data).
         (c_id c, f_id f, r_id r, t) \<in> set (define_variables ex_data) \<longleftrightarrow>
           f_id f \<in> set (c_preferred_faculty c) \<and> t \<in> set (f_availability f) \<and>
           r_capacity r \<ge> c_enrollment c \<and> c_type c = r_type r"
    by blast
  have a: "(c_id ex_course1, f_id ex_faculty2, r_id ex_room1, (0, 1)) \<in> set (define_variables ex_data)"
    using iff[rule_format, OF mem(1) mem(4) mem(5) mem(8)]
    by (simp add: ex_course1_def ex_faculty2_def ex_room1_def)
  have b: "(c_id ex_course2, f_id ex_faculty1, r_id ex_room2, (0, 0)) \<notin> set (define_variables ex_data)"
    using iff[rule_format, OF mem(2) mem(3) mem(6) mem(7)]
    by (simp add: ex_course2_def ex_faculty1_def ex_room2_def)
  have c: "f_id ex_faculty1 \<notin> set (c_preferred_faculty ex_course2)"
    by (simp add: ex_course2_def ex_faculty1_def)
  from dist a b c show ?thesis by blast
qed

section \<open>Coverage\<close>

lemma schedule_returned:
  assumes "solver_sound solve (build_model d tcs prev)"
    and "generate_schedule solve d tcs prev = Inr (Some res)"
  obtains v where "satisfies (build_model d tcs prev) v"
    and "res = sort_key (\<lambda>x. (e_day x, e_slot x)) (entries_of d (define_variables d) v)"
  using assms
  by (auto simp: generate_schedule_eq solver_sound_def split: prod.splits if_splits)

lemma length_filter_sort_key:
  "length (filter P (sort_key k xs)) = length (filter P xs)"
  by (simp add: filter_sort)

lemma entries_of_members:
  assumes "e \<in> set (entries_of d sched v)"
  shows "e_course e \<in> set (COURSES d)" "e_faculty e \<in> set (FACULTY d)" "e_room e \<in> set (ROOMS d)"
    "(e_day e, e_slot e) \<in> set (ALL_TIMESLOTS d)"
  using assms by (auto simp: entries_of_def mk_entry_def lookup_last_mem)

lemma chosen_pos: "0 < chosen sched v k \<Longrightarrow> chosen sched v k = 1"
  by (simp add: chosen_def split: if_splits)

lemma course_has_chosen:
  assumes sat: "satisfies (build_model d tcs prev) v" and c: "c \<in> set (COURSES d)"
  obtains f r t where "f \<in> set (FACULTY d)" "r \<in> set (ROOMS d)" "t \<in> set (ALL_TIMESLOTS d)"
    "chosen (define_variables d) v (c_id c, f_id f, r_id r, t) = 1"
proof -
  let ?S = "define_variables d"
  have "0 < (\<Sum>f\<leftarrow>FACULTY d. \<Sum>r\<leftarrow>ROOMS d. \<Sum>t\<leftarrow>ALL_TIMESLOTS d. chosen ?S v (c_id c, f_id f, r_id r, t))"
    using coverage_sum[OF sat c] by simp
  then obtain f where f: "f \<in> set (FACULTY d)"
    "0 < (\<Sum>r\<leftarrow>ROOMS d. \<Sum>t\<leftarrow>ALL_TIMESLOTS d. chosen ?S v (c_id c, f_id f, r_id r, t))"
    by (blast dest: sum_list_pos_ex)
  then obtain r where r: "r \<in> set (ROOMS d)"
    "0 < (\<Sum>t\<leftarrow>ALL_TIMESLOTS d. chosen ?S v (c_id c, f_id f, r_id r, t))"
    by (blast dest: sum_list_pos_ex)
  then obtain t where t: "t \<in> set (ALL_TIMESLOTS d)" "0 < chosen ?S v (c_id c, f_id f, r_id r, t)"
    by (blast dest: sum_list_pos_ex)
  with f r that show ?thesis by (blast dest: chosen_pos)
qed

lemma course_id_unique:
  assumes sat: "satisfies (build_model d tcs prev) v" and c: "c \<in> set (COURSES d)"
  shows "length (filter (\<lambda>c'. c_id c' = c_id c) (COURSES d)) = 1"
proof -
  obtain f r t where "f \<in> set (FACULTY d)" "r \<in> set (ROOMS d)" "t \<in> set (ALL_TIMESLOTS d)"
    "chosen (define_variables d) v (c_id c, f_id f, r_id r, t) = 1"
    using course_has_chosen[OF sat c] by blast
  then show ?thesis using chosen_unique(1)[OF sat c] by blast
qed

lemma count_course_entries:
  assumes sat: "satisfies (build_model d tcs prev) v"
  shows "length (filter (\<lambda>e. c_id (e_course e) = C) (entries_of d (define_variables d) v)) =
         length (filter (\<lambda>c. c_id c = C) (COURSES d))"
proof -
  let ?S = "define_variables d"
  have "length (filter (\<lambda>e. c_id (e_course e) = C) (entries_of d ?S v)) =
        length (filter (\<lambda>e. fst (entry_key e) = C) (entries_of d ?S v))"
    by (simp add: entry_key_def)
  also have "\<dots> = (\<Sum>t\<leftarrow>ALL_TIMESLOTS d. \<Sum>c\<leftarrow>COURSES d. \<Sum>f\<leftarrow>FACULTY d. \<Sum>r\<leftarrow>ROOMS d.
        if c_id c = C then chosen ?S v (c_id c, f_id f, r_id r, t) else 0)"
    by (simp add: count_entries[of "\<lambda>k. fst k = C"])
  also have "\<dots> = (\<Sum>c\<leftarrow>COURSES d. \<Sum>f\<leftarrow>FACULTY d. \<Sum>r\<leftarrow>ROOMS d. \<Sum>t\<leftarrow>ALL_TIMESLOTS d.
        if c_id c = C then chosen ?S v (c_id c, f_id f, r_id r, t) else 0)"
    by (rule sum4_reorder)
  also have "\<dots> = (\<Sum>c\<leftarrow>COURSES d. if c_id c = C then
        (\<Sum>f\<leftarrow>FACULTY d. \<Sum>r\<leftarrow>ROOMS d. \<Sum>t\<leftarrow>ALL_TIMESLOTS d. chosen ?S v (c_id c, f_id f, r_id r, t)) else 0)"
    by (simp only: sum_list_if_out)
  also have "\<dots> = (\<Sum>c\<leftarrow>COURSES d. if c_id c = C then 1 else 0)"
    by (intro arg_cong[where f = sum_list] map_cong refl) (use coverage_sum[OF sat] in auto)
  also have "\<dots> = length (filter (\<lambda>c. c_id c = C) (COURSES d))"
    by (simp add: sum_list_indicator)
  finally show ?thesis .
qed

lemma length_filter_1_unique:
  assumes "length (filter P xs) = 1" "x \<in> set xs" "y \<in> set xs" "P x" "P y"
  shows "x = y"
  using two_members_length_filter[of x xs y P] assms by fastforce

text \<open>
  C1 (coverage law). Whenever \<^verbatim>\<open>generate_schedule\<close> returns a schedule, every course of
  \<^verbatim>\<open>COURSES\<close> is referenced by exactly one entry of it: exactly one entry carries the
  course's identifier, and exactly one carries the course's record. The solver is taken at
  its contract: values reported with status optimal or feasible satisfy the model.
\<close>

theorem coverage_law:
  assumes "solver_sound solve (build_model d tcs prev)"
    and "generate_schedule solve d tcs prev = Inr (Some res)"
    and "c \<in> set (COURSES d)"
  shows "length (filter (\<lambda>e. c_id (e_course e) = c_id c) res) = 1 \<and>
         length (filter (\<lambda>e. e_course e = c) res) = 1"
proof -
  obtain v where sat: "satisfies (build_model d tcs prev) v"
    and res: "res = sort_key (\<lambda>x. (e_day x, e_slot x)) (entries_of d (define_variables d) v)"
    using schedule_returned[OF assms(1,2)] by blast
  have uniq: "length (filter (\<lambda>c'. c_id c' = c_id c) (COURSES d)) = 1"
    using sat assms(3) by (rule course_id_unique)
  have by_id: "length (filter (\<lambda>e. c_id (e_course e) = c_id c) res) = 1"
    by (simp add: res length_filter_sort_key count_course_entries[OF sat] uniq)
  have "filter (\<lambda>e. e_course e = c) (entries_of d (define_variables d) v) =
        filter (\<lambda>e. c_id (e_course e) = c_id c) (entries_of d (define_variables d) v)"
  proof (rule filter_cong[OF refl])
    fix e assume "e \<in> set (entries_of d (define_variables d) v)"
    then have "e_course e \<in> set (COURSES d)" by (rule entries_of_members)
    then show "(e_course e = c) = (c_id (e_course e) = c_id c)"
      using length_filter_1_unique[OF uniq _ assms(3)] by auto
  qed
  then have "length (filter (\<lambda>e. e_course e = c) res) =
             length (filter (\<lambda>e. c_id (e_course e) = c_id c) res)"
    by (simp add: res length_filter_sort_key)
  with by_id show ?thesis by simp
qed

theorem coverage_law_witness:
  "solver_sound ex_solve (build_model ex_data None None) \<and>
   generate_schedule ex_solve ex_data None None = Inr (Some ex_schedule) \<and>
   ex_course2 \<in> set (COURSES ex_data) \<and>
   length (filter (\<lambda>e. c_id (e_course e) = c_id ex_course2) ex_schedule) = 1 \<and>
   length (filter (\<lambda>e. e_course e = ex_course2) ex_schedule) = 1"
proof -
  have h1: "solver_sound ex_solve (build_model ex_data None None)"
    by (simp add: solver_sound_def ex_solve_def ex_sat)
  have h2: "generate_schedule ex_solve ex_data None None = Inr (Some ex_schedule)"
    by (rule ex_result)
  have h3: "ex_course2 \<in> set (COURSES ex_data)"
    by (simp add: ex_data_def)
  from coverage_law[OF h1 h2 h3] h1 h2 h3 show ?thesis by simp
qed


section \<open>No double booking\<close>

lemma chosen_entry:
  assumes "0 < length (filter (\<lambda>e. Q (entry_key e)) (entries_of d sched v))"
  obtains c f r t where "c \<in> set (COURSES d)" "f \<in> set (FACULTY d)" "r \<in> set (ROOMS d)"
    "t \<in> set (ALL_TIMESLOTS d)" "Q (c_id c, f_id f, r_id r, t)"
    "chosen sched v (c_id c, f_id f, r_id r, t) = 1"
proof -
  from assms obtain e where e: "e \<in> set (entries_of d sched v)" "Q (entry_key e)"
    by (auto simp: filter_empty_conv)
  from e(1) obtain c f r t where m: "c \<in> set (COURSES d)" "f \<in> set (FACULTY d)" "r \<in> set (ROOMS d)"
    "t \<in> set (ALL_TIMESLOTS d)" "e = mk_entry d t c f r"
    "chosen sched v (c_id c, f_id f, r_id r, t) = 1"
    by (auto simp: entries_of_def chosen_def mk_key_def)
  with e(2) have "Q (c_id c, f_id f, r_id r, t)" by (simp add: entry_key_mk_entry)
  with m that show ?thesis by blast
qed

lemma sum4_faculty_first:
  fixes g :: "'t \<Rightarrow> 'c \<Rightarrow> 'f \<Rightarrow> 'r \<Rightarrow> nat"
  shows "(\<Sum>t\<leftarrow>ts. \<Sum>c\<leftarrow>cs. \<Sum>f\<leftarrow>fs. \<Sum>r\<leftarrow>rs. g t c f r) =
         (\<Sum>t\<leftarrow>ts. \<Sum>f\<leftarrow>fs. \<Sum>c\<leftarrow>cs. \<Sum>r\<leftarrow>rs. g t c f r)"
  by (induction cs) (simp_all add: sum_list_addf)

lemma sum4_room_first:
  fixes g :: "'t \<Rightarrow> 'c \<Rightarrow> 'f \<Rightarrow> 'r \<Rightarrow> nat"
  shows "(\<Sum>t\<leftarrow>ts. \<Sum>c\<leftarrow>cs. \<Sum>f\<leftarrow>fs. \<Sum>r\<leftarrow>rs. g t c f r) =
         (\<Sum>t\<leftarrow>ts. \<Sum>r\<leftarrow>rs. \<Sum>c\<leftarrow>cs. \<Sum>f\<leftarrow>fs. g t c f r)"
  by (induction rs) (simp_all add: sum_list_addf)

lemma faculty_entries_le_1:
  assumes sat: "satisfies (build_model d tcs prev) v"
  shows "length (filter (\<lambda>e. f_id (e_faculty e) = F \<and> e_day e = D \<and> e_slot e = S)
           (entries_of d (define_variables d) v)) \<le> 1"
proof -
  let ?S = "define_variables d"
  let ?Q = "\<lambda>k::key. fst (snd k) = F \<and> snd (snd (snd k)) = (D, S)"
  let ?N = "length (filter (\<lambda>e. ?Q (entry_key e)) (entries_of d ?S v))"
  have same: "length (filter (\<lambda>e. f_id (e_faculty e) = F \<and> e_day e = D \<and> e_slot e = S)
           (entries_of d ?S v)) = ?N"
    by (simp add: entry_key_def)
  have "?N \<le> 1"
  proof (cases "0 < ?N")
    case False
    then show ?thesis by simp
  next
    case True
    then obtain c f r t where m: "c \<in> set (COURSES d)" "f \<in> set (FACULTY d)" "r \<in> set (ROOMS d)"
      "t \<in> set (ALL_TIMESLOTS d)" "?Q (c_id c, f_id f, r_id r, t)"
      "chosen ?S v (c_id c, f_id f, r_id r, t) = 1"
      by (rule chosen_entry)
    from m(5) have F: "f_id f = F" and T: "t = (D, S)" by simp_all
    have mF: "length (filter (\<lambda>f'. f_id f' = F) (FACULTY d)) = 1"
      using chosen_unique(2)[OF sat m(1-4) m(6)] F by simp
    have mT: "length (filter (\<lambda>t'. t' = (D, S)) (ALL_TIMESLOTS d)) = 1"
      using chosen_unique(4)[OF sat m(1-4) m(6)] T by simp
    have "?N = (\<Sum>t\<leftarrow>ALL_TIMESLOTS d. \<Sum>c\<leftarrow>COURSES d. \<Sum>f\<leftarrow>FACULTY d. \<Sum>r\<leftarrow>ROOMS d.
        if f_id f = F \<and> t = (D, S) then chosen ?S v (c_id c, f_id f, r_id r, t) else 0)"
      by (simp add: count_entries[of ?Q])
    also have "\<dots> = (\<Sum>t\<leftarrow>ALL_TIMESLOTS d. \<Sum>f\<leftarrow>FACULTY d. \<Sum>c\<leftarrow>COURSES d. \<Sum>r\<leftarrow>ROOMS d.
        if f_id f = F \<and> t = (D, S) then chosen ?S v (c_id c, f_id f, r_id r, t) else 0)"
      by (rule sum4_faculty_first)
    also have "\<dots> = (\<Sum>t\<leftarrow>ALL_TIMESLOTS d. \<Sum>f\<leftarrow>FACULTY d.
        if f_id f = F \<and> t = (D, S)
        then (\<Sum>c\<leftarrow>COURSES d. \<Sum>r\<leftarrow>ROOMS d. chosen ?S v (c_id c, f_id f, r_id r, t)) else 0)"
      by (simp only: sum_list_if_out)
    also have "\<dots> \<le> (\<Sum>t\<leftarrow>ALL_TIMESLOTS d. \<Sum>f\<leftarrow>FACULTY d.
        if t = (D, S) \<and> f_id f = F then 1 else 0)"
    proof (intro sum_list_mono)
      fix t' f' assume "t' \<in> set (ALL_TIMESLOTS d)" "f' \<in> set (FACULTY d)"
      then show "(if f_id f' = F \<and> t' = (D, S)
        then (\<Sum>c\<leftarrow>COURSES d. \<Sum>r\<leftarrow>ROOMS d. chosen ?S v (c_id c, f_id f', r_id r, t')) else 0)
        \<le> (if t' = (D, S) \<and> f_id f' = F then 1 else 0)"
        using faculty_sum[OF sat, of f' t'] by auto
    qed
    also have "\<dots> = 1" by (simp only: indicator2 mF mT)
    finally show ?thesis .
  qed
  with same show ?thesis by simp
qed

lemma room_entries_le_1:
  assumes sat: "satisfies (build_model d tcs prev) v"
  shows "length (filter (\<lambda>e. r_id (e_room e) = R \<and> e_day e = D \<and> e_slot e = S)
           (entries_of d (define_variables d) v)) \<le> 1"
proof -
  let ?S = "define_variables d"
  let ?Q = "\<lambda>k::key. fst (snd (snd k)) = R \<and> snd (snd (snd k)) = (D, S)"
  let ?N = "length (filter (\<lambda>e. ?Q (entry_key e)) (entries_of d ?S v))"
  have same: "length (filter (\<lambda>e. r_id (e_room e) = R \<and> e_day e = D \<and> e_slot e = S)
           (entries_of d ?S v)) = ?N"
    by (simp add: entry_key_def)
  have "?N \<le> 1"
  proof (cases "0 < ?N")
    case False
    then show ?thesis by simp
  next
    case True
    then obtain c f r t where m: "c \<in> set (COURSES d)" "f \<in> set (FACULTY d)" "r \<in> set (ROOMS d)"
      "t \<in> set (ALL_TIMESLOTS d)" "?Q (c_id c, f_id f, r_id r, t)"
      "chosen ?S v (c_id c, f_id f, r_id r, t) = 1"
      by (rule chosen_entry)
    from m(5) have R: "r_id r = R" and T: "t = (D, S)" by simp_all
    have mR: "length (filter (\<lambda>r'. r_id r' = R) (ROOMS d)) = 1"
      using chosen_unique(3)[OF sat m(1-4) m(6)] R by simp
    have mT: "length (filter (\<lambda>t'. t' = (D, S)) (ALL_TIMESLOTS d)) = 1"
      using chosen_unique(4)[OF sat m(1-4) m(6)] T by simp
    have "?N = (\<Sum>t\<leftarrow>ALL_TIMESLOTS d. \<Sum>c\<leftarrow>COURSES d. \<Sum>f\<leftarrow>FACULTY d. \<Sum>r\<leftarrow>ROOMS d.
        if r_id r = R \<and> t = (D, S) then chosen ?S v (c_id c, f_id f, r_id r, t) else 0)"
      by (simp add: count_entries[of ?Q])
    also have "\<dots> = (\<Sum>t\<leftarrow>ALL_TIMESLOTS d. \<Sum>r\<leftarrow>ROOMS d. \<Sum>c\<leftarrow>COURSES d. \<Sum>f\<leftarrow>FACULTY d.
        if r_id r = R \<and> t = (D, S) then chosen ?S v (c_id c, f_id f, r_id r, t) else 0)"
      by (rule sum4_room_first)
    also have "\<dots> = (\<Sum>t\<leftarrow>ALL_TIMESLOTS d. \<Sum>r\<leftarrow>ROOMS d.
        if r_id r = R \<and> t = (D, S)
        then (\<Sum>c\<leftarrow>COURSES d. \<Sum>f\<leftarrow>FACULTY d. chosen ?S v (c_id c, f_id f, r_id r, t)) else 0)"
      by (simp only: sum_list_if_out)
    also have "\<dots> \<le> (\<Sum>t\<leftarrow>ALL_TIMESLOTS d. \<Sum>r\<leftarrow>ROOMS d.
        if t = (D, S) \<and> r_id r = R then 1 else 0)"
    proof (intro sum_list_mono)
      fix t' r' assume "t' \<in> set (ALL_TIMESLOTS d)" "r' \<in> set (ROOMS d)"
      then show "(if r_id r' = R \<and> t' = (D, S)
        then (\<Sum>c\<leftarrow>COURSES d. \<Sum>f\<leftarrow>FACULTY d. chosen ?S v (c_id c, f_id f, r_id r', t')) else 0)
        \<le> (if t' = (D, S) \<and> r_id r' = R then 1 else 0)"
        using room_sum[OF sat, of r' t'] by auto
    qed
    also have "\<dots> = 1" by (simp only: indicator2 mR mT)
    finally show ?thesis .
  qed
  with same show ?thesis by simp
qed

text \<open>
  C2 (no double booking). Whenever \<^verbatim>\<open>generate_schedule\<close> returns a schedule, for every
  faculty identifier and every coordinate (day, slot) at most one entry uses that faculty
  at that coordinate, and for every room identifier and every coordinate at most one entry
  uses that room there. The solver is taken at its contract: values reported with status
  optimal or feasible satisfy the model.
\<close>

theorem no_double_booking:
  assumes "solver_sound solve (build_model d tcs prev)"
    and "generate_schedule solve d tcs prev = Inr (Some res)"
  shows "length (filter (\<lambda>e. f_id (e_faculty e) = F \<and> e_day e = D \<and> e_slot e = S) res) \<le> 1 \<and>
         length (filter (\<lambda>e. r_id (e_room e) = R \<and> e_day e = D \<and> e_slot e = S) res) \<le> 1"
proof -
  obtain v where sat: "satisfies (build_model d tcs prev) v"
    and res: "res = sort_key (\<lambda>x. (e_day x, e_slot x)) (entries_of d (define_variables d) v)"
    using schedule_returned[OF assms] by blast
  show ?thesis
    unfolding res length_filter_sort_key
    using faculty_entries_le_1[OF sat] room_entries_le_1[OF sat] by blast
qed

lemma ex_sat': "satisfies (build_model ex_data None None) ex_val'"
  by (simp add: build_model_def reward_list_def satisfies_def ex_vars ex_hard ex_val'_def)

lemma ex_entries': "entries_of ex_data (define_variables ex_data) ex_val' = ex_schedule'"
  unfolding ex_vars
  by (simp add: entries_of_def ex_defs mk_key_def ex_val'_def mk_entry_def lookup_last_def id_map_def
      ex_schedule'_def)

lemma ex_sorted': "sort_key (\<lambda>x. (e_day x, e_slot x)) ex_schedule' = ex_schedule'"
  by (simp add: ex_schedule'_def)

lemma ex_result': "generate_schedule ex_solve' ex_data tcs prev = Inr (Some ex_schedule')"
  by (simp add: generate_schedule_eq ex_solve'_def ex_entries' ex_sorted')

theorem no_double_booking_witness:
  "solver_sound ex_solve' (build_model ex_data None None) \<and>
   generate_schedule ex_solve' ex_data None None = Inr (Some ex_schedule') \<and>
   length (filter (\<lambda>e. f_id (e_faculty e) = 2 \<and> e_day e = 0 \<and> e_slot e = 0) ex_schedule') \<le> 1 \<and>
   length (filter (\<lambda>e. r_id (e_room e) = 1 \<and> e_day e = 0 \<and> e_slot e = 1) ex_schedule') \<le> 1"
proof -
  have h1: "solver_sound ex_solve' (build_model ex_data None None)"
    by (simp add: solver_sound_def ex_solve'_def ex_sat')
  have h2: "generate_schedule ex_solve' ex_data None None = Inr (Some ex_schedule')"
    by (rule ex_result')
  from no_double_booking[OF h1 h2, where F = 2 and D = 0 and S = 0]
    no_double_booking[OF h1 h2, where R = 1 and D = 0 and S = 1] h1 h2
  show ?thesis by blast
qed

section \<open>Students\<close>

subsection \<open>The dictionary of enrollments\<close>





subsection \<open>At most one course of a student at a time\<close>



subsection \<open>A student with one course\<close>
















section \<open>Temporary constraints\<close>

lemma entries_of_chosen:
  assumes "e \<in> set (entries_of d sched v)"
  obtains c f r t where "c \<in> set (COURSES d)" "f \<in> set (FACULTY d)" "r \<in> set (ROOMS d)"
    "t \<in> set (ALL_TIMESLOTS d)" "e = mk_entry d t c f r" "entry_key e = (c_id c, f_id f, r_id r, t)"
    "chosen sched v (c_id c, f_id f, r_id r, t) = 1"
proof -
  from assms obtain c f r t where m: "c \<in> set (COURSES d)" "f \<in> set (FACULTY d)" "r \<in> set (ROOMS d)"
    "t \<in> set (ALL_TIMESLOTS d)" "e = mk_entry d t c f r"
    "chosen sched v (c_id c, f_id f, r_id r, t) = 1"
    by (auto simp: entries_of_def chosen_def mk_key_def)
  then have "entry_key e = (c_id c, f_id f, r_id r, t)" by (simp add: entry_key_mk_entry)
  with m that show ?thesis by blast
qed

text \<open>
  C6 (lock enforcement). For a temporary constraint with faculty \<open>F\<close>, day \<open>D\<close> and slot
  \<open>S\<close> among those passed, a returned schedule has no entry with faculty \<open>F\<close> at
  (\<open>D\<close>, \<open>S\<close>), whatever its course and room.
\<close>

theorem lock_enforcement:
  assumes "solver_sound solve (build_model d (Some tcs) prev)"
    and "generate_schedule solve d (Some tcs) prev = Inr (Some res)"
    and "tc \<in> set tcs"
    and "tc_faculty_id tc = Some F" "tc_day tc = Some D" "tc_slot tc = Some S"
  shows "filter (\<lambda>e. f_id (e_faculty e) = F \<and> e_day e = D \<and> e_slot e = S) res = []"
proof -
  obtain v where sat: "satisfies (build_model d (Some tcs) prev) v"
    and res: "res = sort_key (\<lambda>x. (e_day x, e_slot x)) (entries_of d (define_variables d) v)"
    using schedule_returned[OF assms(1,2)] by blast
  have "\<not> (f_id (e_faculty e) = F \<and> e_day e = D \<and> e_slot e = S)" if "e \<in> set res" for e
  proof
    assume a: "f_id (e_faculty e) = F \<and> e_day e = D \<and> e_slot e = S"
    from that have "e \<in> set (entries_of d (define_variables d) v)" by (simp add: res)
    then obtain c f r t where m: "c \<in> set (COURSES d)" "f \<in> set (FACULTY d)" "r \<in> set (ROOMS d)"
      "t \<in> set (ALL_TIMESLOTS d)" "e = mk_entry d t c f r"
      "entry_key e = (c_id c, f_id f, r_id r, t)"
      "chosen (define_variables d) v (c_id c, f_id f, r_id r, t) = 1"
      by (rule entries_of_chosen)
    from m(6) a have "f_id f = F" "t = (D, S)" by (auto simp: entry_key_def)
    with m(7) lock_zero[OF sat assms(3-6) m(1,3)] show False by simp
  qed
  then show ?thesis by (simp add: filter_empty_conv)
qed

lemma hard_constraints_split:
  "hard_constraints d sched tcs = hard_constraints d sched None @ temporary d sched tcs"
  by (simp add: hard_constraints_def temporary_def)

lemma ex_temporary:
  "temporary ex_data
     [(1, 1, 1, (0, 0)), (1, 1, 1, (0, 1)), (1, 2, 1, (0, 0)), (1, 2, 1, (0, 1)),
      (2, 2, 2, (0, 0)), (2, 2, 2, (0, 1))] (Some [ex_lock]) =
     [Add (SumEq [SchedVar (1, 1, 1, (0, 0))] 0)]"
  by (simp add: temporary_def apply_constraint_def ex_lock_def ex_defs)

lemma ex_sat_lock: "satisfies (build_model ex_data (Some [ex_lock]) None) ex_val'"
  by (simp add: build_model_def reward_list_def satisfies_def ex_vars
      hard_constraints_split[of _ _ "Some [ex_lock]"] ex_hard ex_temporary ex_val'_def)

theorem lock_enforcement_witness:
  "solver_sound ex_solve' (build_model ex_data (Some [ex_lock]) None) \<and>
   generate_schedule ex_solve' ex_data (Some [ex_lock]) None = Inr (Some ex_schedule') \<and>
   ex_lock \<in> set [ex_lock] \<and>
   tc_faculty_id ex_lock = Some 1 \<and> tc_day ex_lock = Some 0 \<and> tc_slot ex_lock = Some 0 \<and>
   filter (\<lambda>e. f_id (e_faculty e) = 1 \<and> e_day e = 0 \<and> e_slot e = 0) ex_schedule' = []"
proof -
  have h1: "solver_sound ex_solve' (build_model ex_data (Some [ex_lock]) None)"
    by (simp add: solver_sound_def ex_solve'_def ex_sat_lock)
  have h2: "generate_schedule ex_solve' ex_data (Some [ex_lock]) None = Inr (Some ex_schedule')"
    by (rule ex_result')
  have h3: "ex_lock \<in> set [ex_lock]" by simp
  have h4: "tc_faculty_id ex_lock = Some 1" "tc_day ex_lock = Some 0" "tc_slot ex_lock = Some 0"
    by (simp_all add: ex_lock_def)
  from lock_enforcement[OF h1 h2 h3 h4] h1 h2 h3 h4 show ?thesis by simp
qed

section \<open>A course without a variable\<close>

lemma unsat_without_variable:
  assumes c: "c \<in> set (COURSES d)"
    and none: "\<forall>f \<in> set (FACULTY d). \<forall>r \<in> set (ROOMS d). \<forall>t \<in> set (ALL_TIMESLOTS d). \<not> eligible c f r t"
  shows "\<not> satisfies (build_model d tcs prev) v"
proof
  assume sat: "satisfies (build_model d tcs prev) v"
  obtain f r t where "f \<in> set (FACULTY d)" "r \<in> set (ROOMS d)" "t \<in> set (ALL_TIMESLOTS d)"
    "chosen (define_variables d) v (c_id c, f_id f, r_id r, t) = 1"
    by (rule course_has_chosen[OF sat c])
  then have "(c_id c, f_id f, r_id r, t) \<in> set (define_variables d)"
    by (simp add: chosen_def split: if_splits)
  then obtain c' f' r' where q: "c' \<in> set (COURSES d)" "f' \<in> set (FACULTY d)" "r' \<in> set (ROOMS d)"
    "t \<in> set (ALL_TIMESLOTS d)" "c_id c' = c_id c" "eligible c' f' r' t"
    by (auto simp: set_define_variables mk_key_def)
  with none have "c' \<noteq> c" by blast
  then have "2 \<le> length (filter (\<lambda>x. c_id x = c_id c) (COURSES d))"
    using two_members_length_filter[of c' "COURSES d" c "\<lambda>x. c_id x = c_id c"] q(1,5) c by simp
  with course_id_unique[OF sat c] show False by simp
qed

text \<open>
  C7 (a course without an eligible quadruple). If a course of \<^verbatim>\<open>COURSES\<close> passes the
  eligibility tests with no faculty, room and timeslot, the model is still built, no values
  satisfy it, and \<^verbatim>\<open>generate_schedule\<close> returns \<^verbatim>\<open>None\<close> without raising, with any
  sound solver; an exhaustive solver reports infeasible.
\<close>

theorem no_eligible_quadruple:
  assumes "c \<in> set (COURSES d)"
    and "\<forall>f \<in> set (FACULTY d). \<forall>r \<in> set (ROOMS d). \<forall>t \<in> set (ALL_TIMESLOTS d). \<not> eligible c f r t"
  shows "(\<forall>v. \<not> satisfies (build_model d tcs prev) v) \<and>
         (solver_sound solve (build_model d tcs prev) \<longrightarrow>
            generate_schedule solve d tcs prev = Inr None) \<and>
         (solver_exact solve (build_model d tcs prev) \<longrightarrow>
            fst (solve (build_model d tcs prev)) = INFEASIBLE \<and>
            generate_schedule solve d tcs prev = Inr None)"
proof -
  have unsat: "\<forall>v. \<not> satisfies (build_model d tcs prev) v"
    using unsat_without_variable[OF assms] by blast
  have a: "generate_schedule solve d tcs prev = Inr None"
    if "solver_sound solve (build_model d tcs prev)"
    using that unsat by (auto simp: generate_schedule_eq solver_sound_def split: prod.splits)
  have b: "fst (solve (build_model d tcs prev)) = INFEASIBLE \<and>
           generate_schedule solve d tcs prev = Inr None"
    if "solver_exact solve (build_model d tcs prev)"
    using that unsat by (auto simp: generate_schedule_eq solver_exact_def split: prod.splits)
  from unsat a b show ?thesis by blast
qed

lemma ex3_members:
  "ex_course3 \<in> set (COURSES ex_data3)"
  "\<forall>f \<in> set (FACULTY ex_data3). \<forall>r \<in> set (ROOMS ex_data3). \<forall>t \<in> set (ALL_TIMESLOTS ex_data3).
     \<not> eligible ex_course3 f r t"
  by (simp_all add: ex_data3_def ex_course3_def eligible_def)

theorem no_eligible_quadruple_witness:
  "ex_course3 \<in> set (COURSES ex_data3) \<and> c_preferred_faculty ex_course3 = [] \<and>
   \<not> satisfies (build_model ex_data3 None None) ex_val \<and>
   solver_sound ex_infeasible (build_model ex_data3 None None) \<and>
   generate_schedule ex_infeasible ex_data3 None None = Inr None"
proof -
  have s: "solver_sound ex_infeasible (build_model ex_data3 None None)"
    by (simp add: solver_sound_def ex_infeasible_def)
  have p: "c_preferred_faculty ex_course3 = []" by (simp add: ex_course3_def)
  from no_eligible_quadruple[OF ex3_members, of None None ex_infeasible] s p ex3_members(1)
  show ?thesis by blast
qed

section \<open>The output contract\<close>

text \<open>
  C8 (output contract). On arguments of the shapes of the data contract,
  \<^verbatim>\<open>generate_schedule\<close> never raises. It returns \<^verbatim>\<open>None\<close> exactly
  when the solver's status is neither optimal nor feasible, whichever of the other
  statuses it is. Otherwise it returns a list of entries sorted ascending by (day, slot),
  and the course, faculty and room of every entry are records of the input, at a timeslot
  of the input.
\<close>

theorem output_contract:
  "(generate_schedule solve d tcs prev = Inr None \<longleftrightarrow>
      fst (solve (build_model d tcs prev)) \<noteq> OPTIMAL \<and>
      fst (solve (build_model d tcs prev)) \<noteq> FEASIBLE) \<and>
   (\<forall>e. generate_schedule solve d tcs prev \<noteq> Inl e) \<and>
   (\<forall>res. generate_schedule solve d tcs prev = Inr (Some res) \<longrightarrow>
      sorted (map (\<lambda>e. (e_day e, e_slot e)) res) \<and>
      (\<forall>e \<in> set res. e_course e \<in> set (COURSES d) \<and> e_faculty e \<in> set (FACULTY d) \<and>
                     e_room e \<in> set (ROOMS d) \<and> (e_day e, e_slot e) \<in> set (ALL_TIMESLOTS d)))"
proof (intro conjI allI impI)
  obtain st v where sv: "solve (build_model d tcs prev) = (st, v)" by (cases "solve (build_model d tcs prev)")
  show "generate_schedule solve d tcs prev = Inr None \<longleftrightarrow>
      fst (solve (build_model d tcs prev)) \<noteq> OPTIMAL \<and>
      fst (solve (build_model d tcs prev)) \<noteq> FEASIBLE"
    by (simp add: generate_schedule_eq sv)
  show "generate_schedule solve d tcs prev \<noteq> Inl e" for e
    by (simp add: generate_schedule_eq)
  fix res assume "generate_schedule solve d tcs prev = Inr (Some res)"
  then have res: "res = sort_key (\<lambda>x. (e_day x, e_slot x)) (entries_of d (define_variables d) v)"
    by (simp add: generate_schedule_eq sv split: if_splits)
  show "sorted (map (\<lambda>e. (e_day e, e_slot e)) res)"
    unfolding res by (rule sorted_sort_key)
  show "\<forall>e \<in> set res. e_course e \<in> set (COURSES d) \<and> e_faculty e \<in> set (FACULTY d) \<and>
                     e_room e \<in> set (ROOMS d) \<and> (e_day e, e_slot e) \<in> set (ALL_TIMESLOTS d)"
    unfolding res set_sort by (blast dest: entries_of_members)
qed

theorem output_contract_witness:
  "generate_schedule ex_solve ex_data None None = Inr (Some ex_schedule) \<and>
   sorted (map (\<lambda>e. (e_day e, e_slot e)) ex_schedule) \<and>
   e_course (hd ex_schedule) \<in> set (COURSES ex_data) \<and>
   fst (ex_unknown (build_model ex_data None None)) \<noteq> OPTIMAL \<and>
   fst (ex_unknown (build_model ex_data None None)) \<noteq> FEASIBLE \<and>
   generate_schedule ex_unknown ex_data None None = Inr None"
proof -
  have h: "generate_schedule ex_solve ex_data None None = Inr (Some ex_schedule)"
    by (rule ex_result)
  have m: "hd ex_schedule \<in> set ex_schedule" by (simp add: ex_schedule_def)
  have u: "fst (ex_unknown (build_model ex_data None None)) \<noteq> OPTIMAL"
    "fst (ex_unknown (build_model ex_data None None)) \<noteq> FEASIBLE"
    by (simp_all add: ex_unknown_def)
  from output_contract[of ex_solve ex_data None None] h m
  have a: "sorted (map (\<lambda>e. (e_day e, e_slot e)) ex_schedule) \<and>
     e_course (hd ex_schedule) \<in> set (COURSES ex_data)"
    by blast
  from output_contract[of ex_unknown ex_data None None] u
  have b: "generate_schedule ex_unknown ex_data None None = Inr None"
    by blast
  from h a u b show ?thesis by blast
qed


section \<open>Minimum change\<close>

subsection \<open>The model with rewards\<close>

lemma ct_holds_cong:
  assumes "\<And>x. x \<in> set (ct_vars c) \<Longrightarrow> v x = v' x"
  shows "ct_holds v c = ct_holds v' c"
proof (cases c)
  case (Add l)
  with assms have "map v (lin_vars l) = map v' (lin_vars l)" by simp
  then have "sum_list (map v (lin_vars l)) = sum_list (map v' (lin_vars l))" by (rule arg_cong)
  then show ?thesis unfolding Add by (cases l) simp_all
next
  case (AddOnlyEnforceIf l b)
  with assms have "map v (lin_vars l) = map v' (lin_vars l)" and b: "v b = v' b" by simp_all
  then have "sum_list (map v (lin_vars l)) = sum_list (map v' (lin_vars l))" by (simp only:)
  then show ?thesis unfolding AddOnlyEnforceIf using b by (cases l) simp_all
qed

lemma hard_vars:
  assumes "c \<in> set (hard_constraints d sched tcs)" "x \<in> set (ct_vars c)"
  shows "\<exists>k. x = SchedVar k"
  using assms
  by (auto simp: hard_constraints_def course_uniqueness_def faculty_conflict_def room_conflict_def
      student_conflict_def student_constraints_of_def temporary_def apply_constraint_def split: option.splits if_splits)

lemma satisfies_plain:
  "satisfies (build_model d None None) v \<longleftrightarrow>
     bool_dom (define_variables d) v \<and>
     (\<forall>c \<in> set (hard_constraints d (define_variables d) None). ct_holds v c)"
  by (auto simp: satisfies_def build_model_def Let_def reward_list_def bool_dom_def)

lemma satisfies_rewards:
  assumes "prior \<noteq> []"
  shows "satisfies (build_model d None (Some prior)) v \<longleftrightarrow>
     satisfies (build_model d None None) v \<and>
     (\<forall>p \<in> set (rewards d (define_variables d) prior).
        (v (RewardVar (fst p)) = 0 \<or> v (RewardVar (fst p)) = 1) \<and>
        (v (RewardVar (fst p)) = 1 \<longrightarrow> v (SchedVar (snd p)) = 1))"
  using assms
  by (simp add: satisfies_def build_model_def Let_def reward_list_def ball_Un split_def) blast

lemma objective_rewards:
  assumes "prior \<noteq> []"
  shows "objective_value (build_model d None (Some prior)) v =
           (\<Sum>p\<leftarrow>rewards d (define_variables d) prior. v (RewardVar (fst p)))"
  using assms
  by (simp add: objective_value_def build_model_def Let_def reward_list_def comp_def split_def)

lemma satisfies_weaken:
  assumes "satisfies (build_model d tcs prev) v"
  shows "satisfies (build_model d None None) v"
  using assms
  by (auto simp: satisfies_def build_model_def Let_def reward_list_def hard_constraints_def
      temporary_def split: option.splits if_splits)

lemma satisfies_all_rewards:
  assumes "satisfies (build_model d None None) v"
  shows "satisfies (build_model d None None) (all_rewards v)"
proof -
  have same: "all_rewards v (SchedVar k) = v (SchedVar k)" for k by (simp add: all_rewards_def rewards_of_def)
  have "ct_holds (all_rewards v) c = ct_holds v c"
    if c: "c \<in> set (hard_constraints d (define_variables d) None)" for c
  proof (rule ct_holds_cong)
    fix x assume "x \<in> set (ct_vars c)"
    then obtain k where "x = SchedVar k" using hard_vars[OF c] by blast
    then show "all_rewards v x = v x" by (simp add: same)
  qed
  with assms show ?thesis by (simp add: satisfies_plain bool_dom_def same)
qed

lemma sum_list_all_one:
  fixes g :: "'a \<Rightarrow> int"
  assumes "\<And>x. x \<in> set xs \<Longrightarrow> g x = 0 \<or> g x = 1" "int (length xs) \<le> sum_list (map g xs)"
  shows "\<forall>x \<in> set xs. g x = 1"
  using assms
proof (induction xs)
  case Nil
  then show ?case by simp
next
  case (Cons a xs)
  have le: "sum_list (map g xs) \<le> int (length xs)"
    using Cons.prems(1) by (induction xs) (auto, force)
  have a: "g a = 0 \<or> g a = 1" using Cons.prems(1) by simp
  with le Cons.prems(2) have "g a = 1" "int (length xs) \<le> sum_list (map g xs)" by auto
  with Cons.IH Cons.prems(1) show ?case by simp
qed

subsection \<open>The map of the previous schedule\<close>

lemma fold_old_Some:
  "fold (\<lambda>item m. m(c_id (e_course item) \<mapsto>
                        (f_id (e_faculty item), r_id (e_room item), (e_day item, e_slot item))))
       prior m0 C = Some x \<Longrightarrow>
     m0 C = Some x \<or> (\<exists>e \<in> set prior. entry_key e = (C, x))"
  by (induction prior arbitrary: m0) (fastforce simp: entry_key_def split: if_splits)+

lemma fold_old_None:
  "fold (\<lambda>item m. m(c_id (e_course item) \<mapsto>
                        (f_id (e_faculty item), r_id (e_room item), (e_day item, e_slot item))))
       prior m0 C = None \<longleftrightarrow> m0 C = None \<and> (\<forall>e \<in> set prior. c_id (e_course e) \<noteq> C)"
  by (induction prior arbitrary: m0) auto

lemma old_schedule_map_Some:
  "old_schedule_map prior C = Some x \<Longrightarrow> \<exists>e \<in> set prior. entry_key e = (C, x)"
  using fold_old_Some[of prior Map.empty C x] by (simp add: old_schedule_map_def)

lemma old_schedule_map_None:
  "old_schedule_map prior C = None \<longleftrightarrow> (\<forall>e \<in> set prior. c_id (e_course e) \<noteq> C)"
  using fold_old_None[of prior Map.empty C] by (simp add: old_schedule_map_def)

lemma set_rewards:
  "p \<in> set (rewards d sched prior) \<longleftrightarrow>
     (\<exists>i x. i < length (COURSES d) \<and> old_schedule_map prior (c_id (COURSES d ! i)) = Some x \<and>
            (c_id (COURSES d ! i), x) \<in> set sched \<and> p = (i, (c_id (COURSES d ! i), x)))"
proof
  assume "p \<in> set (rewards d sched prior)"
  then show "\<exists>i x. i < length (COURSES d) \<and> old_schedule_map prior (c_id (COURSES d ! i)) = Some x \<and>
            (c_id (COURSES d ! i), x) \<in> set sched \<and> p = (i, (c_id (COURSES d ! i), x))"
    by (auto simp: rewards_def rewards_of_def in_set_enumerate_eq split: option.splits if_splits)
next
  assume "\<exists>i x. i < length (COURSES d) \<and> old_schedule_map prior (c_id (COURSES d ! i)) = Some x \<and>
            (c_id (COURSES d ! i), x) \<in> set sched \<and> p = (i, (c_id (COURSES d ! i), x))"
  then obtain i x where i: "i < length (COURSES d)"
    and x: "old_schedule_map prior (c_id (COURSES d ! i)) = Some x"
    and k: "(c_id (COURSES d ! i), x) \<in> set sched" and p: "p = (i, (c_id (COURSES d ! i), x))"
    by blast
  have e: "(i, COURSES d ! i) \<in> set (enumerate 0 (COURSES d))"
    using i by (simp add: in_set_enumerate_eq)
  obtain F R T where xs: "x = (F, R, T)" by (cases x)
  have "p \<in> set ((\<lambda>(i, c).
        case old_schedule_map prior (c_id c) of
          None \<Rightarrow> []
        | Some (old_faculty, old_room, old_timeslot) \<Rightarrow>
            if (c_id c, old_faculty, old_room, old_timeslot) \<in> set sched
            then [(i, (c_id c, old_faculty, old_room, old_timeslot))] else []) (i, COURSES d ! i))"
    using x k p by (simp add: xs)
  with e show "p \<in> set (rewards d sched prior)"
    unfolding rewards_def rewards_of_def set_concat set_map by blast
qed

subsection \<open>One chosen key for a course\<close>

lemma sum_list_concat_map_nat:
  fixes g :: "'b \<Rightarrow> nat"
  shows "sum_list (map g (concat (map F xs))) = sum_list (map (\<lambda>x. sum_list (map g (F x))) xs)"
  by (induction xs) simp_all

lemma coverage_unique:
  assumes sat: "satisfies (build_model d tcs prev) v" and c: "c \<in> set (COURSES d)"
    and m1: "f \<in> set (FACULTY d)" "r \<in> set (ROOMS d)" "t \<in> set (ALL_TIMESLOTS d)"
    and m2: "f' \<in> set (FACULTY d)" "r' \<in> set (ROOMS d)" "t' \<in> set (ALL_TIMESLOTS d)"
    and ch: "chosen (define_variables d) v (c_id c, f_id f, r_id r, t) = 1"
      "chosen (define_variables d) v (c_id c, f_id f', r_id r', t') = 1"
  shows "(c_id c, f_id f, r_id r, t) = (c_id c, f_id f', r_id r', t')"
proof -
  let ?L = "concat (map (\<lambda>f. concat (map (\<lambda>r. map (\<lambda>t. (c_id c, f_id f, r_id r, t))
              (ALL_TIMESLOTS d)) (ROOMS d))) (FACULTY d))"
  have "sum_list (map (chosen (define_variables d) v) ?L) =
        (\<Sum>f\<leftarrow>FACULTY d. \<Sum>r\<leftarrow>ROOMS d. \<Sum>t\<leftarrow>ALL_TIMESLOTS d.
            chosen (define_variables d) v (c_id c, f_id f, r_id r, t))"
    by (simp add: sum_list_concat_map_nat comp_def)
  then have le: "sum_list (map (chosen (define_variables d) v) ?L) \<le> 1"
    using coverage_sum[OF sat c] by simp
  have in1: "(c_id c, f_id f, r_id r, t) \<in> set ?L" using m1 by auto
  have in2: "(c_id c, f_id f', r_id r', t') \<in> set ?L" using m2 by auto
  show ?thesis
    using sum_list_le1_unique[OF le in1 in2] ch by simp
qed

lemma entries_of_cong:
  assumes "\<And>c f r t. c \<in> set (COURSES d) \<Longrightarrow> f \<in> set (FACULTY d) \<Longrightarrow> r \<in> set (ROOMS d) \<Longrightarrow>
             t \<in> set (ALL_TIMESLOTS d) \<Longrightarrow>
             chosen sched v (c_id c, f_id f, r_id r, t) = chosen sched v' (c_id c, f_id f, r_id r, t)"
  shows "entries_of d sched v = entries_of d sched v'"
proof -
  have cond: "(mk_key c f r t \<in> set sched \<and> v (SchedVar (mk_key c f r t)) = 1) =
              (mk_key c f r t \<in> set sched \<and> v' (SchedVar (mk_key c f r t)) = 1)"
    if "c \<in> set (COURSES d)" "f \<in> set (FACULTY d)" "r \<in> set (ROOMS d)" "t \<in> set (ALL_TIMESLOTS d)"
    for c f r t
    using assms[OF that] by (auto simp: chosen_def mk_key_def split: if_splits)
  show ?thesis
    unfolding entries_of_def
    by (intro arg_cong[where f = concat] map_cong refl) (simp add: cond)
qed

lemma entries_of_chosen_key:
  assumes "e \<in> set (entries_of d sched v)"
  shows "chosen sched v (entry_key e) = 1"
proof -
  from assms obtain c f r t where "c \<in> set (COURSES d)" "f \<in> set (FACULTY d)" "r \<in> set (ROOMS d)"
    "t \<in> set (ALL_TIMESLOTS d)" "e = mk_entry d t c f r" "entry_key e = (c_id c, f_id f, r_id r, t)"
    "chosen sched v (c_id c, f_id f, r_id r, t) = 1"
    by (rule entries_of_chosen)
  then show ?thesis by simp
qed

lemma chosen_in_sched: "chosen sched v k = 1 \<Longrightarrow> k \<in> set sched"
  by (simp add: chosen_def split: if_splits)

lemma chosen_SchedVar: "chosen sched v k = 1 \<Longrightarrow> v (SchedVar k) = 1"
  by (simp add: chosen_def split: if_splits)

lemma course_has_entry:
  assumes sat: "satisfies (build_model d tcs prev) v" and c: "c \<in> set (COURSES d)"
  shows "\<exists>e \<in> set (entries_of d (define_variables d) v). c_id (e_course e) = c_id c"
proof -
  have "length (filter (\<lambda>e. c_id (e_course e) = c_id c) (entries_of d (define_variables d) v)) = 1"
    by (simp add: count_course_entries[OF sat] course_id_unique[OF sat c])
  then have "filter (\<lambda>e. c_id (e_course e) = c_id c) (entries_of d (define_variables d) v) \<noteq> []"
    by auto
  then show ?thesis by (auto simp: filter_empty_conv)
qed

text \<open>
  With the previous schedule decoded from satisfying values \<open>v0\<close>: every reward is for a
  key that \<open>v0\<close> chooses, and every course has a reward.
\<close>

lemma reward_chosen:
  assumes prior: "set prior = set (entries_of d (define_variables d) v0)"
    and p: "p \<in> set (rewards d (define_variables d) prior)"
  shows "chosen (define_variables d) v0 (snd p) = 1"
proof -
  from p obtain i x where "old_schedule_map prior (c_id (COURSES d ! i)) = Some x"
    "p = (i, (c_id (COURSES d ! i), x))"
    by (auto simp: set_rewards)
  then obtain e where "e \<in> set prior" "entry_key e = snd p"
    using old_schedule_map_Some by fastforce
  then show ?thesis using entries_of_chosen_key[of e d "define_variables d" v0] prior by simp
qed

lemma course_has_reward:
  assumes sat: "satisfies (build_model d tcs prev) v0"
    and prior: "set prior = set (entries_of d (define_variables d) v0)"
    and c: "c \<in> set (COURSES d)"
  shows "\<exists>p \<in> set (rewards d (define_variables d) prior). fst (snd p) = c_id c"
proof -
  obtain e where "e \<in> set prior" "c_id (e_course e) = c_id c"
    using course_has_entry[OF sat c] prior by blast
  then have "old_schedule_map prior (c_id c) \<noteq> None"
    by (auto simp: old_schedule_map_None)
  then obtain x where x: "old_schedule_map prior (c_id c) = Some x" by blast
  then obtain e' where e': "e' \<in> set prior" "entry_key e' = (c_id c, x)"
    using old_schedule_map_Some by blast
  from e'(1) prior have "e' \<in> set (entries_of d (define_variables d) v0)" by simp
  then have "chosen (define_variables d) v0 (entry_key e') = 1" by (rule entries_of_chosen_key)
  then have k: "(c_id c, x) \<in> set (define_variables d)"
    unfolding e'(2) by (rule chosen_in_sched)
  obtain i where i: "i < length (COURSES d)" "COURSES d ! i = c"
    using c by (auto simp: in_set_conv_nth)
  have "(i, (c_id c, x)) \<in> set (rewards d (define_variables d) prior)"
    unfolding set_rewards using i x k by blast
  then show ?thesis by force
qed

text \<open>Values that satisfy the hard constraints and choose the same key for every course are the same schedule.\<close>

lemma same_choice:
  assumes sat: "satisfies (build_model d None None) v" and sat0: "satisfies (build_model d None None) v0"
    and agree: "\<And>c. c \<in> set (COURSES d) \<Longrightarrow>
       \<exists>k. fst k = c_id c \<and> chosen (define_variables d) v k = 1 \<and> chosen (define_variables d) v0 k = 1"
  shows "entries_of d (define_variables d) v = entries_of d (define_variables d) v0"
proof (rule entries_of_cong)
  fix c f r t
  assume m: "c \<in> set (COURSES d)" "f \<in> set (FACULTY d)" "r \<in> set (ROOMS d)" "t \<in> set (ALL_TIMESLOTS d)"
  let ?S = "define_variables d"
  let ?key = "(c_id c, f_id f, r_id r, t)"
  obtain k where k: "fst k = c_id c" "chosen ?S v k = 1" "chosen ?S v0 k = 1"
    using agree[OF m(1)] by blast
  from chosen_in_sched[OF k(2)] k(1) obtain f' r' t' where
    m': "f' \<in> set (FACULTY d)" "r' \<in> set (ROOMS d)" "t' \<in> set (ALL_TIMESLOTS d)"
    and keq: "k = (c_id c, f_id f', r_id r', t')"
    by (auto simp: set_define_variables mk_key_def)
  have one: "chosen ?S w ?key = 1 \<Longrightarrow> chosen ?S w k = 1 \<Longrightarrow> ?key = k"
    if "satisfies (build_model d None None) w" for w
    using coverage_unique[OF that m(1) m(2-4) m'] keq by simp
  show "chosen ?S v ?key = chosen ?S v0 ?key"
  proof (cases "?key = k")
    case True
    with k show ?thesis by simp
  next
    case False
    have "chosen ?S v ?key \<noteq> 1" using one[OF sat] k(2) False by blast
    moreover have "chosen ?S v0 ?key \<noteq> 1" using one[OF sat0] k(3) False by blast
    ultimately show ?thesis by (simp add: chosen_def split: if_splits)
  qed
qed

lemma entries_of_no_courses: "COURSES d = [] \<Longrightarrow> entries_of d sched v = []"
  by (simp add: entries_of_def)

lemma minimum_change_values:
  assumes exact: "solver_exact solve (build_model d None (Some prior))"
    and sat0: "satisfies (build_model d None None) v0"
    and prior: "prior = sort_key (\<lambda>x. (e_day x, e_slot x)) (entries_of d (define_variables d) v0)"
    and sv: "solve (build_model d None (Some prior)) = (st, v)"
  shows "st = OPTIMAL \<and> entries_of d (define_variables d) v = entries_of d (define_variables d) v0"
proof (cases "prior = []")
  case True
  then have m: "build_model d None (Some prior) = build_model d None None"
    by (simp add: build_model_def reward_list_def)
  have "\<exists>v'. satisfies (build_model d None (Some prior)) v'" using sat0 m by auto
  with exact sv have st: "st = OPTIMAL" by (simp add: solver_exact_def)
  have "entries_of d (define_variables d) v0 = []"
    using True prior by (metis length_0_conv length_sort)
  then have "COURSES d = []"
    using course_has_entry[OF sat0] by (cases "COURSES d") auto
  with st show ?thesis by (simp add: entries_of_no_courses)
next
  case False
  let ?S = "define_variables d"
  let ?m = "build_model d None (Some prior)"
  let ?rs = "rewards d ?S prior"
  have set_prior: "set prior = set (entries_of d ?S v0)" by (simp add: prior)
  have all1: "(all_rewards v0) (SchedVar k) = v0 (SchedVar k)" "(all_rewards v0) (RewardVar i) = 1" for k i
    by (simp_all add: all_rewards_def rewards_of_def)
  have held0: "v0 (SchedVar (snd p)) = 1" if "p \<in> set ?rs" for p
    using reward_chosen[OF set_prior that] by (rule chosen_SchedVar)
  have sat1: "satisfies ?m (all_rewards v0)"
    unfolding satisfies_rewards[OF False]
    using satisfies_all_rewards[OF sat0] held0 by (simp add: all1)
  have obj1: "objective_value ?m (all_rewards v0) = int (length ?rs)"
    by (simp add: objective_rewards[OF False] all1 sum_list_triv)
  from sat1 have "\<exists>v'. satisfies ?m v'" by blast
  with exact sv have st: "st = OPTIMAL" and sat: "satisfies ?m v"
    and best: "\<And>v'. satisfies ?m v' \<Longrightarrow> objective_value ?m v' \<le> objective_value ?m v"
    by (simp_all add: solver_exact_def)
  have "int (length ?rs) \<le> (\<Sum>p\<leftarrow>?rs. v (RewardVar (fst p)))"
    using best[OF sat1] unfolding obj1 by (simp only: objective_rewards[OF False])
  moreover have "v (RewardVar (fst p)) = 0 \<or> v (RewardVar (fst p)) = 1" if "p \<in> set ?rs" for p
    using sat that unfolding satisfies_rewards[OF False] by blast
  ultimately have "\<forall>p \<in> set ?rs. v (RewardVar (fst p)) = 1"
    by (intro sum_list_all_one) auto
  then have held: "v (SchedVar (snd p)) = 1" if "p \<in> set ?rs" for p
    using sat that unfolding satisfies_rewards[OF False] by blast
  have satv: "satisfies (build_model d None None) v"
    using sat by (rule satisfies_weaken)
  have "entries_of d ?S v = entries_of d ?S v0"
  proof (rule same_choice[OF satv sat0])
    fix c assume "c \<in> set (COURSES d)"
    then obtain p where p: "p \<in> set ?rs" "fst (snd p) = c_id c"
      using course_has_reward[OF sat0 set_prior] by blast
    have c0: "chosen ?S v0 (snd p) = 1" using reward_chosen[OF set_prior p(1)] .
    then have "chosen ?S v (snd p) = 1"
      using held[OF p(1)] by (simp add: chosen_def split: if_splits)
    with c0 p(2) show "\<exists>k. fst k = c_id c \<and> chosen ?S v k = 1 \<and> chosen ?S v0 k = 1" by blast
  qed
  with st show ?thesis by simp
qed

lemma build_model_no_locks: "build_model d (Some []) prev = build_model d None prev"
  by (simp add: build_model_def hard_constraints_def temporary_def)

lemma generate_schedule_no_locks:
  "generate_schedule solve d (Some []) prev = generate_schedule solve d None prev"
  by (simp add: generate_schedule_def build_model_no_locks)

text \<open>
  C5 (minimum change). Let the previous schedule be feasible: it is the schedule decoded,
  in the order of the decoder, from values that satisfy all hard constraints of the same
  data (so every previous assignment is an eligible quadruple). Called with that schedule
  as \<^verbatim>\<open>previous_schedule\<close>, the same data and no temporary constraints (\<^verbatim>\<open>None\<close> or an
  empty list), \<^verbatim>\<open>generate_schedule\<close> returns the previous schedule itself: every reward is
  satisfied. The solver is taken at the contract of an exhaustive search, which the code
  runs without a limit: a satisfiable model ends optimal with values that maximise the
  objective.
\<close>

theorem minimum_change:
  assumes "tcs = None \<or> tcs = Some []"
    and "solver_exact solve (build_model d tcs (Some prior))"
    and "satisfies (build_model d None None) v0"
    and "decode d (define_variables d) v0 = Inr entries"
    and "prior = sort_key (\<lambda>x. (e_day x, e_slot x)) entries"
  shows "generate_schedule solve d tcs (Some prior) = Inr (Some prior)"
proof -
  have m: "build_model d tcs (Some prior) = build_model d None (Some prior)"
    and g: "generate_schedule solve d tcs (Some prior) = generate_schedule solve d None (Some prior)"
    using assms(1) by (auto simp: build_model_no_locks generate_schedule_no_locks)
  have prior: "prior = sort_key (\<lambda>x. (e_day x, e_slot x)) (entries_of d (define_variables d) v0)"
    using assms(4,5) by (simp add: decode_eq)
  obtain st v where sv: "solve (build_model d None (Some prior)) = (st, v)"
    by (cases "solve (build_model d None (Some prior))")
  from minimum_change_values[OF assms(2)[unfolded m] assms(3) prior sv]
  show ?thesis unfolding g by (simp add: generate_schedule_eq sv prior[symmetric])
qed

lemma ex_old: "old_schedule_map ex_schedule = [1 \<mapsto> (1, 1, (0, 0)), 2 \<mapsto> (2, 2, (0, 1))]"
  by (simp add: old_schedule_map_def ex_schedule_def ex_defs)

lemma ex_rewards:
  "rewards ex_data (define_variables ex_data) ex_schedule =
     [(0, (1, 1, 1, (0, 0))), (1, (2, 2, 2, (0, 1)))]"
  unfolding ex_vars rewards_def rewards_of_def ex_old
  by (simp add: ex_defs enumerate_eq_zip upt_rec)

lemma ex_exact: "solver_exact ex_solve (build_model ex_data None (Some ex_schedule))"
proof -
  let ?m = "build_model ex_data None (Some ex_schedule)"
  have ne: "ex_schedule \<noteq> []" by (simp add: ex_schedule_def)
  have sat: "satisfies ?m ex_val"
    unfolding satisfies_rewards[OF ne] ex_rewards using ex_sat by (simp add: ex_val_def)
  have best: "objective_value ?m v' \<le> objective_value ?m ex_val" if "satisfies ?m v'" for v'
    using that unfolding satisfies_rewards[OF ne] objective_rewards[OF ne] ex_rewards
    by (auto simp: ex_val_def)
  from sat best show ?thesis
    by (auto simp: solver_exact_def ex_solve_def)
qed

lemma ex_decode: "decode ex_data (define_variables ex_data) ex_val = Inr ex_schedule"
  by (simp add: decode_eq ex_entries)

theorem minimum_change_witness:
  "solver_exact ex_solve (build_model ex_data None (Some ex_schedule)) \<and>
   satisfies (build_model ex_data None None) ex_val \<and>
   decode ex_data (define_variables ex_data) ex_val = Inr ex_schedule \<and>
   ex_schedule = sort_key (\<lambda>x. (e_day x, e_slot x)) ex_schedule \<and>
   generate_schedule ex_solve ex_data None (Some ex_schedule) = Inr (Some ex_schedule)"
proof -
  have s: "ex_schedule = sort_key (\<lambda>x. (e_day x, e_slot x)) ex_schedule"
    by (simp add: ex_sorted)
  from minimum_change[OF _ ex_exact ex_sat ex_decode s] ex_exact ex_sat ex_decode s
  show ?thesis by blast
qed

text \<open>
  Soundness of the solver alone does not give the previous schedule back: values that
  satisfy the model and are reported as feasible, without the rewards, are returned as
  they are.
\<close>

lemma ex_sat_rewards': "satisfies (build_model ex_data None (Some ex_schedule)) ex_val'"
proof -
  have ne: "ex_schedule \<noteq> []" by (simp add: ex_schedule_def)
  show ?thesis
    unfolding satisfies_rewards[OF ne] ex_rewards using ex_sat' by (simp add: ex_val'_def)
qed

lemma feasible_not_optimal:
  "solver_sound ex_solve' (build_model ex_data None (Some ex_schedule)) \<and>
   generate_schedule ex_solve' ex_data None (Some ex_schedule) = Inr (Some ex_schedule') \<and>
   ex_schedule' \<noteq> ex_schedule"
proof -
  have a: "solver_sound ex_solve' (build_model ex_data None (Some ex_schedule))"
    by (simp add: solver_sound_def ex_solve'_def ex_sat_rewards')
  have b: "generate_schedule ex_solve' ex_data None (Some ex_schedule) = Inr (Some ex_schedule')"
    by (rule ex_result')
  have c: "ex_schedule' \<noteq> ex_schedule"
    by (simp add: ex_schedule_def ex_schedule'_def ex_defs)
  from a b c show ?thesis by blast
qed

section \<open>The timeslot index\<close>

lemma day_map_range: "day_map s = Some dn \<Longrightarrow> 0 \<le> dn \<and> dn \<le> 4"
  by (auto simp: day_map_def split: if_splits)

lemma counters_of_Nil: "counters_of [] = slot_indices_init"
  by (auto simp: counters_of_def slot_indices_init_def day_count_def fun_eq_iff)

lemma update_fresh: "k \<notin> fst ` set m \<Longrightarrow> AList.update k v m = m @ [(k, v)]"
  by (induction m) auto

lemma index_of_snoc:
  "index_of (pre @ [ts]) =
     index_of pre @ (case day_map (day_of_week ts) of
                       None \<Rightarrow> []
                     | Some dn \<Rightarrow> [(ts_id ts, (dn, int (day_count dn pre)))])"
proof -
  have eq: "map (\<lambda>i. case day_map (day_of_week ((pre @ [ts]) ! i)) of
                          None \<Rightarrow> []
                        | Some dn \<Rightarrow> [(ts_id ((pre @ [ts]) ! i), (dn, int (day_count dn (take i (pre @ [ts])))))])
               [0..<length pre] =
        map (\<lambda>i. case day_map (day_of_week (pre ! i)) of
                          None \<Rightarrow> []
                        | Some dn \<Rightarrow> [(ts_id (pre ! i), (dn, int (day_count dn (take i pre))))])
               [0..<length pre]"
    by (intro map_cong refl) (simp add: nth_append split: option.splits)
  show ?thesis by (simp add: index_of_def eq split: option.splits)
qed

lemma index_of_keys: "fst ` set (index_of tss) \<subseteq> ts_id ` set tss"
  by (auto simp: index_of_def split: option.splits)

lemma counters_of_snoc:
  "day_map (day_of_week ts) = Some dn \<Longrightarrow>
     counters_of (pre @ [ts]) = (counters_of pre)(dn \<mapsto> int (day_count dn pre) + 1)"
  by (auto simp: counters_of_def day_count_def fun_eq_iff dest: day_map_range)

lemma counters_of_skip:
  "day_map (day_of_week ts) = None \<Longrightarrow> counters_of (pre @ [ts]) = counters_of pre"
  by (auto simp: counters_of_def day_count_def fun_eq_iff)

lemma index_step_spec:
  assumes "ts_id ts \<notin> ts_id ` set pre"
  shows "index_step (index_of pre, counters_of pre) ts = Inr (index_of (pre @ [ts]), counters_of (pre @ [ts]))"
proof (cases "day_map (day_of_week ts)")
  case None
  then show ?thesis by (simp add: index_step_def index_of_snoc counters_of_skip)
next
  case (Some dn)
  have sub: "subscript (counters_of pre) dn = Inr (int (day_count dn pre))"
    using day_map_range[OF Some] by (simp add: subscript_def counters_of_def)
  have fresh: "ts_id ts \<notin> fst ` set (index_of pre)"
    using assms index_of_keys[of pre] by blast
  show ?thesis
    by (simp add: index_step_def Some sub update_fresh[OF fresh] index_of_snoc counters_of_snoc[OF Some])
qed

lemma index_loop_spec:
  assumes "distinct (map ts_id (pre @ rest))"
  shows "index_loop (index_of pre, counters_of pre) rest =
           Inr (index_of (pre @ rest), counters_of (pre @ rest))"
  using assms
proof (induction rest arbitrary: pre)
  case Nil
  then show ?case by simp
next
  case (Cons ts rest)
  have fresh: "ts_id ts \<notin> ts_id ` set pre" using Cons.prems by auto
  have d: "distinct (map ts_id ((pre @ [ts]) @ rest))" using Cons.prems by simp
  show ?case using Cons.IH[OF d] by (simp add: index_step_spec[OF fresh])
qed

lemma timeslot_id_map_spec:
  assumes "distinct (map ts_id tss)"
  shows "timeslot_id_map tss = Inr (index_of tss)"
proof -
  have "index_of [] = []" by (simp add: index_of_def)
  then show ?thesis
    using index_loop_spec[of "[]" tss] assms
    by (simp add: timeslot_id_map_def counters_of_Nil)
qed

lemma set_index_of:
  "set (index_of tss) =
     {(ts_id (tss ! i), (dn, int (day_count dn (take i tss)))) | i dn.
        i < length tss \<and> day_map (day_of_week (tss ! i)) = Some dn}"
  by (auto simp: index_of_def split: option.splits)

lemma length_index_of:
  "length (index_of tss) = length (filter (\<lambda>ts. day_map (day_of_week ts) \<noteq> None) tss)"
proof (induction tss rule: rev_induct)
  case Nil
  then show ?case by (simp add: index_of_def)
next
  case (snoc ts pre)
  then show ?case by (simp add: index_of_snoc split: option.splits)
qed

lemma distinct_index_keys:
  "distinct (map ts_id tss) \<Longrightarrow> distinct (map fst (index_of tss))"
proof (induction tss rule: rev_induct)
  case Nil
  then show ?case by (simp add: index_of_def)
next
  case (snoc ts pre)
  have "ts_id ts \<notin> fst ` set (index_of pre)"
    using snoc.prems index_of_keys[of pre] by auto
  with snoc show ?case by (auto simp: index_of_snoc split: option.splits)
qed

lemma day_count_take_less:
  assumes "i < length tss" "day_map (day_of_week (tss ! i)) = Some dn"
  shows "day_count dn (take i tss) < day_count dn tss"
proof -
  have "tss = take i tss @ tss ! i # drop (Suc i) tss"
    using assms(1) by (rule id_take_nth_drop)
  then have "day_count dn tss = day_count dn (take i tss @ tss ! i # drop (Suc i) tss)"
    by simp
  also have "\<dots> = day_count dn (take i tss) + 1 + day_count dn (drop (Suc i) tss)"
    using assms(2) by (simp add: day_count_def)
  finally show ?thesis by simp
qed

lemma distinct_index_coords: "distinct (map snd (index_of tss))"
proof (induction tss rule: rev_induct)
  case Nil
  then show ?case by (simp add: index_of_def)
next
  case (snoc ts pre)
  show ?case
  proof (cases "day_map (day_of_week ts)")
    case None
    with snoc show ?thesis by (simp add: index_of_snoc)
  next
    case (Some dn)
    have "(dn, int (day_count dn pre)) \<notin> snd ` set (index_of pre)"
    proof
      assume "(dn, int (day_count dn pre)) \<in> snd ` set (index_of pre)"
      then obtain i where "i < length pre" "day_map (day_of_week (pre ! i)) = Some dn"
        "int (day_count dn pre) = int (day_count dn (take i pre))"
        by (auto simp: set_index_of)
      with day_count_take_less[of i pre dn] show False by simp
    qed
    with snoc Some show ?thesis by (simp add: index_of_snoc)
  qed
qed

lemma map_of_index_of:
  assumes d: "distinct (map ts_id tss)" and i: "i < length tss"
  shows "map_of (index_of tss) (ts_id (tss ! i)) =
           (case day_map (day_of_week (tss ! i)) of
              None \<Rightarrow> None
            | Some dn \<Rightarrow> Some (dn, int (day_count dn (take i tss))))"
proof -
  have same: "j = i" if "j < length tss" "ts_id (tss ! j) = ts_id (tss ! i)" for j
    using that d i by (metis distinct_conv_nth length_map nth_map)
  show ?thesis
  proof (cases "day_map (day_of_week (tss ! i))")
    case None
    have "ts_id (tss ! i) \<notin> fst ` set (index_of tss)"
    proof
      assume "ts_id (tss ! i) \<in> fst ` set (index_of tss)"
      then obtain j dn where "j < length tss" "day_map (day_of_week (tss ! j)) = Some dn"
        "ts_id (tss ! i) = ts_id (tss ! j)"
        by (auto simp: set_index_of)
      with same[of j] None show False by simp
    qed
    then show ?thesis by (simp add: None map_of_eq_None_iff)
  next
    case (Some dn)
    have "(ts_id (tss ! i), (dn, int (day_count dn (take i tss)))) \<in> set (index_of tss)"
      using i Some by (auto simp: set_index_of)
    then show ?thesis
      using distinct_index_keys[OF d] by (simp add: Some)
  qed
qed

lemma fold_reverse:
  "fold (\<lambda>(k, v) rm. rm(v \<mapsto> k)) m rm0 c =
     (case map_of (rev (map (\<lambda>(k, v). (v, k)) m)) c of None \<Rightarrow> rm0 c | Some k \<Rightarrow> Some k)"
  by (induction m arbitrary: rm0) (auto split: option.splits)

lemma reverse_timeslot_map_iff:
  assumes "distinct (map snd m)"
  shows "reverse_timeslot_map m c = Some k \<longleftrightarrow> (k, c) \<in> set m"
proof -
  have d: "distinct (map fst (rev (map (\<lambda>(k, v). (v, k)) m)))"
    using assms by (simp add: rev_map[symmetric] comp_def case_prod_beta distinct_rev)
  have "reverse_timeslot_map m c = map_of (rev (map (\<lambda>(k, v). (v, k)) m)) c"
    by (simp add: reverse_timeslot_map_def fold_reverse split: option.splits)
  also have "\<dots> = Some k \<longleftrightarrow> (c, k) \<in> set (rev (map (\<lambda>(k, v). (v, k)) m))"
    using d by simp
  also have "\<dots> \<longleftrightarrow> (k, c) \<in> set m" by auto
  finally show ?thesis .
qed

text \<open>
  C9 (timeslot index). For raw timeslot records with unique identifiers, in the order
  given (the query sorts them by day and start time), the loop never raises; the record at
  position \<open>i\<close> whose day is the weekday \<open>D\<close> is mapped to (\<open>D\<close>, \<open>k\<close>), where \<open>k\<close> is the
  number of records of day \<open>D\<close> before it; a record of another day is skipped and consumes
  no coordinate (the index has one entry per weekday record); and the index is a bijection
  between its identifiers and the coordinates produced, with
  \<^verbatim>\<open>reverse_timeslot_map\<close> its inverse.
\<close>

theorem timeslot_index:
  assumes "distinct (map ts_id tss)"
  shows "\<exists>m. timeslot_id_map tss = Inr m \<and>
           (\<forall>i < length tss.
              map_of m (ts_id (tss ! i)) =
                (case day_map (day_of_week (tss ! i)) of
                   None \<Rightarrow> None
                 | Some day_num \<Rightarrow>
                     Some (day_num,
                           int (length (filter (\<lambda>ts. day_map (day_of_week ts) = Some day_num) (take i tss)))))) \<and>
           length m = length (filter (\<lambda>ts. day_map (day_of_week ts) \<noteq> None) tss) \<and>
           distinct (map fst m) \<and> distinct (ALL_TIMESLOTS_AS_TUPLES m) \<and>
           (\<forall>k c. reverse_timeslot_map m c = Some k \<longleftrightarrow> map_of m k = Some c) \<and>
           dom (reverse_timeslot_map m) = set (ALL_TIMESLOTS_AS_TUPLES m)"
proof (intro exI conjI allI impI)
  let ?m = "index_of tss"
  show "timeslot_id_map tss = Inr ?m" using assms by (rule timeslot_id_map_spec)
  show "map_of ?m (ts_id (tss ! i)) =
                (case day_map (day_of_week (tss ! i)) of
                   None \<Rightarrow> None
                 | Some day_num \<Rightarrow>
                     Some (day_num,
                           int (length (filter (\<lambda>ts. day_map (day_of_week ts) = Some day_num) (take i tss)))))"
    if "i < length tss" for i
    unfolding map_of_index_of[OF assms that] day_count_def ..
  show "length ?m = length (filter (\<lambda>ts. day_map (day_of_week ts) \<noteq> None) tss)"
    by (rule length_index_of)
  show dk: "distinct (map fst ?m)" using assms by (rule distinct_index_keys)
  show "distinct (ALL_TIMESLOTS_AS_TUPLES ?m)"
    by (simp add: ALL_TIMESLOTS_AS_TUPLES_def distinct_index_coords)
  show iff: "reverse_timeslot_map ?m c = Some k \<longleftrightarrow> map_of ?m k = Some c" for k c
    using dk by (simp add: reverse_timeslot_map_iff[OF distinct_index_coords])
  show "dom (reverse_timeslot_map ?m) = set (ALL_TIMESLOTS_AS_TUPLES ?m)"
  proof -
    have "c \<in> dom (reverse_timeslot_map ?m) \<longleftrightarrow> c \<in> snd ` set ?m" for c
    proof
      assume "c \<in> dom (reverse_timeslot_map ?m)"
      then obtain k where "reverse_timeslot_map ?m c = Some k" by blast
      then have "(k, c) \<in> set ?m" by (simp add: reverse_timeslot_map_iff[OF distinct_index_coords])
      then show "c \<in> snd ` set ?m" by force
    next
      assume "c \<in> snd ` set ?m"
      then obtain k where "(k, c) \<in> set ?m" by force
      then have "reverse_timeslot_map ?m c = Some k"
        by (simp add: reverse_timeslot_map_iff[OF distinct_index_coords])
      then show "c \<in> dom (reverse_timeslot_map ?m)" by blast
    qed
    then show ?thesis unfolding ALL_TIMESLOTS_AS_TUPLES_def set_map by blast
  qed
qed

lemma ex_timeslot_id_map: "timeslot_id_map ex_timeslots = Inr ex_index"
  by (simp add: timeslot_id_map_def ex_timeslots_def index_step_def day_map_def
      slot_indices_init_def subscript_def ex_index_def)

theorem timeslot_index_witness:
  "distinct (map ts_id ex_timeslots) \<and> timeslot_id_map ex_timeslots = Inr ex_index \<and>
   map_of ex_index 5 = Some (0, 1) \<and> map_of ex_index 9 = None \<and> map_of ex_index 2 = Some (1, 0) \<and>
   length ex_index = 3 \<and>
   distinct (ALL_TIMESLOTS_AS_TUPLES ex_index) \<and> reverse_timeslot_map ex_index (0, 1) = Some 5"
proof -
  have d: "distinct (map ts_id ex_timeslots)" by (simp add: ex_timeslots_def)
  from timeslot_index[OF d] ex_timeslot_id_map
  have a: "\<forall>i < length ex_timeslots.
              map_of ex_index (ts_id (ex_timeslots ! i)) =
                (case day_map (day_of_week (ex_timeslots ! i)) of
                   None \<Rightarrow> None
                 | Some day_num \<Rightarrow>
                     Some (day_num,
                           int (length (filter (\<lambda>ts. day_map (day_of_week ts) = Some day_num)
                                  (take i ex_timeslots)))))"
    and l: "length ex_index = length (filter (\<lambda>ts. day_map (day_of_week ts) \<noteq> None) ex_timeslots)"
    and b: "distinct (ALL_TIMESLOTS_AS_TUPLES ex_index)"
    and c: "\<forall>k c. reverse_timeslot_map ex_index c = Some k \<longleftrightarrow> map_of ex_index k = Some c"
    by auto
  have m5: "map_of ex_index 5 = Some (0, 1)"
    using a[rule_format, of 1] by (simp add: ex_timeslots_def day_map_def)
  have m9: "map_of ex_index 9 = None"
    using a[rule_format, of 2] by (simp add: ex_timeslots_def day_map_def)
  have m2: "map_of ex_index 2 = Some (1, 0)"
    using a[rule_format, of 3] by (simp add: ex_timeslots_def day_map_def)
  have l3: "length ex_index = 3"
    using l by (simp add: ex_timeslots_def day_map_def)
  have r: "reverse_timeslot_map ex_index (0, 1) = Some 5"
    using c m5 by blast
  from d ex_timeslot_id_map m5 m9 m2 l3 b r show ?thesis by blast
qed


section \<open>The arguments after the call\<close>

lemma model_add_frame [simp]:
  "v_data (model_add cs vs) = v_data vs"
  "v_temporary_constraints (model_add cs vs) = v_temporary_constraints vs"
  "v_previous_schedule (model_add cs vs) = v_previous_schedule vs"
  "v_schedule (model_add cs vs) = v_schedule vs"
  "v_student_enrollments (model_add cs vs) = v_student_enrollments vs"
  by (simp_all add: model_add_def)

lemma model_new_vars_frame [simp]:
  "v_data (model_new_vars xs vs) = v_data vs"
  "v_temporary_constraints (model_new_vars xs vs) = v_temporary_constraints vs"
  "v_previous_schedule (model_new_vars xs vs) = v_previous_schedule vs"
  "v_schedule (model_new_vars xs vs) = v_schedule vs"
  "v_student_enrollments (model_new_vars xs vs) = v_student_enrollments vs"
  by (simp_all add: model_new_vars_def)















end
